theory Spec2Isabelle
  imports Main
begin

section \<open>JavaScript strings\<close>

text \<open>
  Strings are lists of characters. \<open>starts_with s w\<close> is \<open>s.startsWith(w)\<close>.
  \<open>replace_first pat rep s\<close> is \<open>s.replace(pat, rep)\<close> for a string pattern and a
  replacement without \<open>$\<close>: only the first occurrence of \<open>pat\<close>, wherever it is, is
  replaced (the empty pattern occurs at index 0).
\<close>

definition starts_with :: "string \<Rightarrow> string \<Rightarrow> bool" where
  "starts_with s w = (take (length w) s = w)"

fun replace_first :: "string \<Rightarrow> string \<Rightarrow> string \<Rightarrow> string" where
  "replace_first pat rep [] = (if pat = [] then rep else [])"
| "replace_first pat rep (x # xs) =
     (if starts_with (x # xs) pat then rep @ drop (length pat) (x # xs)
      else x # replace_first pat rep xs)"

text \<open>\<open>strip_trailing_slash s\<close> is \<open>s.replace(/\/$/, '')\<close>: one final slash is removed.\<close>

definition strip_trailing_slash :: "string \<Rightarrow> string" where
  "strip_trailing_slash s = (if s \<noteq> [] \<and> last s = CHR ''/'' then butlast s else s)"

text \<open>Template interpolation of a value that may be \<open>undefined\<close>.\<close>

definition js_str :: "string option \<Rightarrow> string" where
  "js_str v = (case v of None \<Rightarrow> ''undefined'' | Some s \<Rightarrow> s)"

section \<open>Regular expressions\<close>

text \<open>
  The fragment of JavaScript regular expressions that the three patterns of
  \<open>parseGitHubUrl\<close> use, with the backtracking semantics: a matcher returns every way of
  matching at the current position, in the order in which the backtracking engine tries
  them, so the head of the list is the match that JavaScript reports.
  A state is the index into the input, the rest of the input and the captures so far.

  \<open>Lit w\<close> is the literal text \<open>w\<close>, \<open>Bol\<close> is \<open>^\<close> and \<open>Eol\<close> is \<open>$\<close> (no
  flags, so they stand for the two ends of the input). \<open>Plus Greedy C\<close> is \<open>C+\<close> and
  \<open>Plus Lazy C\<close> is \<open>C+?\<close> for a character class \<open>C\<close>: one up to as many characters
  of the class as follow, the longest run tried first, or the shortest. \<open>Opt r\<close> is
  \<open>(?:r)?\<close>, tried with \<open>r\<close> first. \<open>Group n r\<close> is the \<open>n\<close>th capturing group; a
  group that takes no part in the match stays undefined.
\<close>

datatype quant = Greedy | Lazy

datatype rx =
    Lit string
  | Bol
  | Eol
  | Plus quant "char \<Rightarrow> bool"
  | Opt rx
  | Group nat rx
  | Seq rx rx

type_synonym captures = "nat \<rightharpoonup> string"
type_synonym mstate = "nat \<times> string \<times> captures"

fun rx_match :: "rx \<Rightarrow> mstate \<Rightarrow> mstate list" where
  "rx_match (Lit w) (i, s, c) =
     (if starts_with s w then [(i + length w, drop (length w) s, c)] else [])"
| "rx_match Bol (i, s, c) = (if i = 0 then [(i, s, c)] else [])"
| "rx_match Eol (i, s, c) = (if s = [] then [(i, s, c)] else [])"
| "rx_match (Plus q P) (i, s, c) =
     (let ks = [1 ..< Suc (length (takeWhile P s))]
      in map (\<lambda>k. (i + k, drop k s, c)) (case q of Greedy \<Rightarrow> rev ks | Lazy \<Rightarrow> ks))"
| "rx_match (Opt r) st = rx_match r st @ [st]"
| "rx_match (Group g r) (i, s, c) =
     map (\<lambda>(j, t, d). (j, t, d(g \<mapsto> take (j - i) s))) (rx_match r (i, s, c))"
| "rx_match (Seq a b) st = concat (map (rx_match b) (rx_match a st))"

text \<open>
  \<open>input.match(r)\<close> for a pattern without flags: the leftmost start position at which
  the pattern matches, and there the first match in backtracking order.
\<close>

fun rx_search :: "rx \<Rightarrow> nat \<Rightarrow> string \<Rightarrow> captures option" where
  "rx_search r i [] =
     (case rx_match r (i, [], Map.empty) of [] \<Rightarrow> None | (j, t, c) # _ \<Rightarrow> Some c)"
| "rx_search r i (x # xs) =
     (case rx_match r (i, x # xs, Map.empty) of
        [] \<Rightarrow> rx_search r (Suc i) xs
      | (j, t, c) # _ \<Rightarrow> Some c)"

definition js_match :: "string \<Rightarrow> rx \<Rightarrow> captures option" where
  "js_match input r = rx_search r 0 input"

fun seqs :: "rx list \<Rightarrow> rx" where
  "seqs [] = Lit []"
| "seqs [r] = r"
| "seqs (r # rs) = Seq r (seqs rs)"

subsection \<open>Character classes\<close>

text \<open>
  \<open>\w\<close> is \<open>[A-Za-z0-9_]\<close>; \<open>.\<close> is every character but a line terminator. Characters
  are the 8-bit characters of HOL, where the line terminators are line feed and carriage
  return; the separators U+2028 and U+2029 of JavaScript lie outside this alphabet.
\<close>

definition word_char :: "char \<Rightarrow> bool" where
  "word_char c =
     (let n = (of_char c :: nat)
      in (48 \<le> n \<and> n \<le> 57) \<or> (65 \<le> n \<and> n \<le> 90) \<or> n = 95 \<or> (97 \<le> n \<and> n \<le> 122))"

definition name_char :: "char \<Rightarrow> bool" where
  "name_char c = (word_char c \<or> c = CHR ''.'' \<or> c = CHR ''-'')"

definition dot_char :: "char \<Rightarrow> bool" where
  "dot_char c = (c \<noteq> CHR 0x0A \<and> c \<noteq> CHR 0x0D)"

definition non_slash :: "char \<Rightarrow> bool" where
  "non_slash c = (c \<noteq> CHR ''/'')"

section \<open>parseGitHubUrl\<close>

text \<open>
  The three patterns of the source:
  \<^verbatim>\<open>/^([\w.-]+)\/([\w.-]+)(?:#(.+))?$/\<close>,
  \<^verbatim>\<open>/github\.com\/(.+?)\/(.+?)(?:\.git)?(?:#(.+))?$/\<close> and
  \<^verbatim>\<open>/^https:\/\/github\.com\/([^/]+)\/([^/]+)\/tree\/([^/]+)\/(.+)$/\<close>.
  The fields of the result are the captures of the match, which JavaScript leaves
  undefined for a group that did not take part.
\<close>

definition shorthandRegex :: rx where
  "shorthandRegex =
     seqs [Bol, Group 1 (Plus Greedy name_char), Lit ''/'', Group 2 (Plus Greedy name_char),
           Opt (Seq (Lit ''#'') (Group 3 (Plus Greedy dot_char))), Eol]"

definition fullRepoRegex :: rx where
  "fullRepoRegex =
     seqs [Lit ''github.com/'', Group 1 (Plus Lazy dot_char), Lit ''/'',
           Group 2 (Plus Lazy dot_char), Opt (Lit ''.git''),
           Opt (Seq (Lit ''#'') (Group 3 (Plus Greedy dot_char))), Eol]"

definition treeUrlRegex :: rx where
  "treeUrlRegex =
     seqs [Bol, Lit ''https://github.com/'', Group 1 (Plus Greedy non_slash), Lit ''/'',
           Group 2 (Plus Greedy non_slash), Lit ''/tree/'', Group 3 (Plus Greedy non_slash),
           Lit ''/'', Group 4 (Plus Greedy dot_char), Eol]"

record repo_ref =
  owner :: "string option"
  repo :: "string option"
  branch :: "string option"
  subfolder :: "string option"

definition invalid_format :: string where
  "invalid_format =
     ''Invalid GitHub repo format. Use owner/repo[#branch] or full GitHub folder URL.''"

definition parseGitHubUrl :: "string \<Rightarrow> string + repo_ref" where
  "parseGitHubUrl input =
     (case js_match input treeUrlRegex of
        Some m \<Rightarrow> Inr \<lparr>owner = m 1, repo = m 2, branch = m 3, subfolder = m 4\<rparr>
      | None \<Rightarrow>
     (case js_match input shorthandRegex of
        Some m \<Rightarrow> Inr \<lparr>owner = m 1, repo = m 2, branch = m 3, subfolder = None\<rparr>
      | None \<Rightarrow>
     (case js_match input fullRepoRegex of
        Some m \<Rightarrow> Inr \<lparr>owner = m 1, repo = m 2, branch = m 3, subfolder = None\<rparr>
      | None \<Rightarrow> Inl invalid_format)))"

section \<open>Node's POSIX path functions\<close>

text \<open>
  The path functions that \<open>downloadFolder\<close> calls, in their POSIX form. A path is split
  at its slashes; empty and \<open>.\<close> segments are dropped and a \<open>..\<close> segment removes the
  segment before it (above the root of a relative path it is kept when \<open>up\<close> is set).
\<close>

fun split_slash :: "string \<Rightarrow> string list" where
  "split_slash [] = [[]]"
| "split_slash (c # cs) =
     (if c = CHR ''/'' then [] # split_slash cs
      else (case split_slash cs of [] \<Rightarrow> [[c]] | x # xs \<Rightarrow> (c # x) # xs))"

fun join_slash :: "string list \<Rightarrow> string" where
  "join_slash [] = []"
| "join_slash [x] = x"
| "join_slash (x # xs) = x @ CHR ''/'' # join_slash xs"

fun norm_segs :: "bool \<Rightarrow> string list \<Rightarrow> string list \<Rightarrow> string list" where
  "norm_segs up [] acc = rev acc"
| "norm_segs up (x # xs) acc =
     (if x = [] \<or> x = ''.'' then norm_segs up xs acc
      else if x = ''..'' then
        (case acc of
           [] \<Rightarrow> norm_segs up xs (if up then [x] else [])
         | y # ys \<Rightarrow>
             if y \<noteq> ''..'' then norm_segs up xs ys
             else norm_segs up xs (if up then x # acc else acc))
      else norm_segs up xs (x # acc))"

definition normalizeString :: "string \<Rightarrow> bool \<Rightarrow> string" where
  "normalizeString p up = join_slash (norm_segs up (split_slash p) [])"

definition is_absolute :: "string \<Rightarrow> bool" where
  "is_absolute p = (case p of [] \<Rightarrow> False | c # _ \<Rightarrow> c = CHR ''/'')"

definition posix_normalize :: "string \<Rightarrow> string" where
  "posix_normalize p =
     (if p = [] then ''.''
      else
        let trailing = (last p = CHR ''/'');
            q = normalizeString p (\<not> is_absolute p)
        in if q = [] then (if is_absolute p then ''/'' else if trailing then ''./'' else ''.'')
           else (if is_absolute p then ''/'' else []) @ q @ (if trailing then ''/'' else []))"

text \<open>\<open>path.join(a, b)\<close>: the non-empty arguments joined by a slash, then normalised.\<close>

definition posix_join :: "string \<Rightarrow> string \<Rightarrow> string" where
  "posix_join a b =
     (if a = [] \<and> b = [] then ''.''
      else if b = [] then posix_normalize a
      else if a = [] then posix_normalize b
      else posix_normalize (a @ ''/'' @ b))"

text \<open>
  \<open>path.resolve(a, b)\<close> in a process whose working directory is \<open>wd\<close>: arguments are
  taken from the right until one is absolute, the working directory last.
\<close>

fun resolve_loop :: "string list \<Rightarrow> string \<Rightarrow> string \<times> bool" where
  "resolve_loop [] acc = (acc, False)"
| "resolve_loop (p # ps) acc =
     (if p = [] then resolve_loop ps acc
      else if is_absolute p then (p @ ''/'' @ acc, True)
      else resolve_loop ps (p @ ''/'' @ acc))"

definition posix_resolve :: "string \<Rightarrow> string \<Rightarrow> string \<Rightarrow> string" where
  "posix_resolve wd a b =
     (case resolve_loop [b, a, wd] [] of
        (p, absolute) \<Rightarrow>
          let q = normalizeString p (\<not> absolute)
          in if absolute then ''/'' @ q else if q = [] then ''.'' else q)"

definition is_slash :: "char \<Rightarrow> bool" where
  "is_slash c = (c = CHR ''/'')"

definition posix_basename :: "string \<Rightarrow> string" where
  "posix_basename p = rev (takeWhile (\<lambda>c. \<not> is_slash c) (dropWhile is_slash (rev p)))"

definition posix_dirname :: "string \<Rightarrow> string" where
  "posix_dirname p =
     (if p = [] then ''.''
      else
        let v = dropWhile (\<lambda>c. \<not> is_slash c) (dropWhile is_slash (rev (tl p)))
        in if v = [] then (if is_absolute p then ''/'' else ''.'')
           else if is_absolute p \<and> length v = 1 then ''//''
           else take (length v) p)"

section \<open>The file system\<close>

text \<open>
  The file system is a finite table from canonical paths to nodes. Every system call can
  also fail for a reason outside the table (permissions, a full disk): the environment's
  \<open>fault\<close> says which call fails on which path, and with which error.
\<close>

datatype node = FileNode string | DirNode

type_synonym filesystem = "(string \<times> node) list"

datatype syscall = Stat | Readdir | Mkdir | Open | Remove

record fs_error =
  code :: string
  message :: string

type_synonym faults = "syscall \<Rightarrow> string \<Rightarrow> fs_error option"

definition fs_key :: "string \<Rightarrow> string" where
  "fs_key p = (if is_absolute p then ''/'' else []) @ normalizeString p (\<not> is_absolute p)"

definition fs_lookup :: "filesystem \<Rightarrow> string \<Rightarrow> node option" where
  "fs_lookup f p = (if fs_key p = ''/'' then Some DirNode else map_of f (fs_key p))"

definition fs_put :: "string \<Rightarrow> node \<Rightarrow> filesystem \<Rightarrow> filesystem" where
  "fs_put p n f = (fs_key p, n) # filter (\<lambda>(q, _). q \<noteq> fs_key p) f"

definition enoent :: "string \<Rightarrow> fs_error" where
  "enoent p = \<lparr>code = ''ENOENT'', message = ''ENOENT: no such file or directory, '' @ p\<rparr>"

definition enotdir :: "string \<Rightarrow> fs_error" where
  "enotdir p = \<lparr>code = ''ENOTDIR'', message = ''ENOTDIR: not a directory, '' @ p\<rparr>"

definition eisdir :: "string \<Rightarrow> fs_error" where
  "eisdir p = \<lparr>code = ''EISDIR'', message = ''EISDIR: illegal operation on a directory, '' @ p\<rparr>"

definition eexist :: "string \<Rightarrow> fs_error" where
  "eexist p = \<lparr>code = ''EEXIST'', message = ''EEXIST: file already exists, '' @ p\<rparr>"

text \<open>
  \<open>ancestor_chain p\<close> lists the directories on the way to \<open>p\<close>, outermost first, and
  \<open>p\<close> itself as the last element.
\<close>

fun ancestors :: "string \<Rightarrow> string list \<Rightarrow> string list" where
  "ancestors base [] = []"
| "ancestors base (x # xs) =
     (let here = (if base = [] \<or> base = ''/'' then base @ x else base @ ''/'' @ x)
      in here # ancestors here xs)"

definition ancestor_chain :: "string \<Rightarrow> string list" where
  "ancestor_chain p =
     ancestors (if is_absolute p then ''/'' else [])
       (norm_segs (\<not> is_absolute p) (split_slash p) [])"

text \<open>
  Resolving a path, as every system call does before it acts: the components are looked
  up from the outermost on. The first one that is missing gives \<open>ENOENT\<close>; a regular
  file in the place of a directory on the way gives \<open>ENOTDIR\<close>. \<open>node_at f p\<close> is the
  node that the path names, or the error of the resolution.
\<close>

fun walk :: "filesystem \<Rightarrow> string \<Rightarrow> string list \<Rightarrow> fs_error + node" where
  "walk f p [] = Inr DirNode"
| "walk f p [d] = (case fs_lookup f d of None \<Rightarrow> Inl (enoent p) | Some n \<Rightarrow> Inr n)"
| "walk f p (d # ds) =
     (case fs_lookup f d of
        None \<Rightarrow> Inl (enoent p)
      | Some (FileNode _) \<Rightarrow> Inl (enotdir p)
      | Some DirNode \<Rightarrow> walk f p ds)"

definition node_at :: "filesystem \<Rightarrow> string \<Rightarrow> fs_error + node" where
  "node_at f p = walk f p (ancestor_chain p)"

text \<open>\<open>fs.stat(p)\<close>: here only \<open>isFile()\<close> of the result is used.\<close>

definition fs_stat :: "faults \<Rightarrow> filesystem \<Rightarrow> string \<Rightarrow> fs_error + bool" where
  "fs_stat flt f p =
     (case flt Stat p of
        Some e \<Rightarrow> Inl e
      | None \<Rightarrow>
          (case node_at f p of
             Inl e \<Rightarrow> Inl e
           | Inr (FileNode _) \<Rightarrow> Inr True
           | Inr DirNode \<Rightarrow> Inr False))"

definition children :: "filesystem \<Rightarrow> string \<Rightarrow> string list" where
  "children f p =
     map posix_basename (filter (\<lambda>q. q \<noteq> fs_key p \<and> fs_key (posix_dirname q) = fs_key p) (map fst f))"

definition fs_readdir :: "faults \<Rightarrow> filesystem \<Rightarrow> string \<Rightarrow> fs_error + string list" where
  "fs_readdir flt f p =
     (case flt Readdir p of
        Some e \<Rightarrow> Inl e
      | None \<Rightarrow>
          (case node_at f p of
             Inl e \<Rightarrow> Inl e
           | Inr (FileNode _) \<Rightarrow> Inl (enotdir p)
           | Inr DirNode \<Rightarrow> Inr (children f p)))"

text \<open>
  \<open>fs.ensureDir(p)\<close> creates the directory and its missing ancestors, outermost first;
  it fails at the first ancestor that is a file or that the environment refuses, and
  what it has created by then stays.
\<close>

fun mkdirs :: "faults \<Rightarrow> string list \<Rightarrow> filesystem \<Rightarrow> filesystem \<times> fs_error option" where
  "mkdirs flt [] f = (f, None)"
| "mkdirs flt (d # ds) f =
     (case fs_lookup f d of
        Some DirNode \<Rightarrow> mkdirs flt ds f
      | Some (FileNode _) \<Rightarrow> (f, Some (if ds = [] then eexist d else enotdir d))
      | None \<Rightarrow>
          (case flt Mkdir d of
             Some e \<Rightarrow> (f, Some e)
           | None \<Rightarrow> mkdirs flt ds (fs_put d DirNode f)))"

definition ensureDir :: "faults \<Rightarrow> string \<Rightarrow> filesystem \<Rightarrow> filesystem \<times> fs_error option" where
  "ensureDir flt p f = mkdirs flt (ancestor_chain p) f"

text \<open>
  Piping content into \<open>fs.createWriteStream(p)\<close>: the file is created or truncated and
  receives the content; the stream fails when \<open>p\<close> names a directory, when its parent
  is missing or is a file, or when the environment refuses.
\<close>

definition write_file :: "faults \<Rightarrow> string \<Rightarrow> string \<Rightarrow> filesystem \<Rightarrow> filesystem \<times> fs_error option" where
  "write_file flt p content f =
     (case flt Open p of
        Some e \<Rightarrow> (f, Some e)
      | None \<Rightarrow>
          if p \<noteq> [] \<and> last p = CHR ''/'' then (f, Some (eisdir p))
          else
            (case node_at f (posix_dirname p) of
               Inl e \<Rightarrow> (f, Some e)
             | Inr (FileNode _) \<Rightarrow> (f, Some (enotdir p))
             | Inr DirNode \<Rightarrow>
                 (case fs_lookup f p of
                    Some DirNode \<Rightarrow> (f, Some (eisdir p))
                  | _ \<Rightarrow> (fs_put p (FileNode content) f, None))))"

text \<open>
  \<open>fs.remove(p).catch(() => {})\<close>: the node at \<open>p\<close> and everything below it go; an
  error is dropped. \<open>below p q\<close>: the key \<open>q\<close> is the path \<open>p\<close> or lies below it.
\<close>

definition below :: "string \<Rightarrow> string \<Rightarrow> bool" where
  "below p q =
     (q = fs_key p \<or> starts_with q (if fs_key p = ''/'' then ''/'' else fs_key p @ ''/''))"

definition fs_remove :: "faults \<Rightarrow> string \<Rightarrow> filesystem \<Rightarrow> filesystem" where
  "fs_remove flt p f =
     (case flt Remove p of
        Some e \<Rightarrow> f
      | None \<Rightarrow> filter (\<lambda>(q, _). \<not> below p q) f)"

section \<open>The run: environment and state\<close>

text \<open>
  What a run receives from outside is an environment: the working directory, the
  temporary directory, the clock, the faults of the file system and the answers of the
  network. An archive is the sequence of entries that the ZIP stream yields, and the error
  with which the stream may break off after them. An entry has its path, its type and,
  for a file, its content.

  The parser of the archive goes on to the next entry only when the content of the
  current one has left it: read by a consumer, drained, or small enough to lie in the
  buffers of the entry's stream. \<open>streamBuffer\<close> is the number of characters that
  these buffers hold.
\<close>

datatype entry_type = File | Directory

record entry =
  path :: string
  type :: entry_type
  content :: string

record archive =
  entries :: "entry list"
  stream_error :: "string option"

record response =
  ok :: bool
  statusText :: string
  json_default_branch :: "string + string option"
  body :: "archive option"

record env =
  cwd :: string
  tmpdir :: string
  now :: nat
  streamBuffer :: nat
  fault :: faults
  fetch :: "string \<Rightarrow> string + response"

text \<open>
  The state of a run: the file system, what the spinner has been told (colours left
  out), \<open>process.exitCode\<close>, and the two counters of the extraction loop.
  \<open>stalled\<close> says that the stream yields no further entry: the loop waits for ever,
  the promise of \<open>downloadFolder\<close> never settles, and the other fields are what the run
  had done by then.
\<close>

datatype event = Start string | Text string | Fail string | Warn string | Succeed string

record state =
  files :: filesystem
  spinner :: "event list"
  exitCode :: nat
  filesExtracted :: nat
  matchedSomething :: bool
  stalled :: bool

definition tell :: "event \<Rightarrow> state \<Rightarrow> state" where
  "tell ev st = st\<lparr>spinner := spinner st @ [ev]\<rparr>"

definition digit_char :: "nat \<Rightarrow> char" where
  "digit_char d = char_of (48 + d)"

fun show_nat :: "nat \<Rightarrow> string" where
  "show_nat n = (if n < 10 then [digit_char n] else show_nat (n div 10) @ [digit_char (n mod 10)])"

declare show_nat.simps [simp del]

definition truthy :: "string option \<Rightarrow> bool" where
  "truthy v = (case v of None \<Rightarrow> False | Some s \<Rightarrow> s \<noteq> [])"

section \<open>getDefaultBranch\<close>

definition getDefaultBranch :: "env \<Rightarrow> string option \<Rightarrow> string option \<Rightarrow> string + string option" where
  "getDefaultBranch E own rep =
     (case fetch E (''https://api.github.com/repos/'' @ js_str own @ ''/'' @ js_str rep) of
        Inl msg \<Rightarrow> Inl msg
      | Inr res \<Rightarrow>
          if \<not> ok res then Inl (''Failed to fetch repo metadata: '' @ statusText res)
          else json_default_branch res)"

section \<open>The check of the target path\<close>

datatype guard_outcome = Proceed | ExistsAsFile | NotEmpty | ProbeError string

definition probe_catch :: "fs_error \<Rightarrow> guard_outcome" where
  "probe_catch err = (if code err \<noteq> ''ENOENT'' then ProbeError (message err) else Proceed)"

definition target_guard :: "faults \<Rightarrow> filesystem \<Rightarrow> string \<Rightarrow> guard_outcome" where
  "target_guard flt f outputDir =
     (case fs_stat flt f outputDir of
        Inl err \<Rightarrow> probe_catch err
      | Inr isFile \<Rightarrow>
          if isFile then ExistsAsFile
          else
            (case fs_readdir flt f outputDir of
               Inl err \<Rightarrow> probe_catch err
             | Inr names \<Rightarrow> if length names > 0 then NotEmpty else Proceed))"

fun guard_message :: "string \<Rightarrow> guard_outcome \<Rightarrow> string" where
  "guard_message outputDir ExistsAsFile =
     ''Target '' @ outputDir @ '' exists as a file. Please remove it or choose another name.''"
| "guard_message outputDir NotEmpty =
     ''Directory '' @ outputDir @ '' already exists and is not empty.''"
| "guard_message outputDir (ProbeError msg) = ''Error checking target path: '' @ msg"
| "guard_message outputDir Proceed = []"

section \<open>The extraction loop\<close>

definition relativePath :: "string \<Rightarrow> entry \<Rightarrow> string" where
  "relativePath prefix e = replace_first prefix [] (path e)"

definition in_scope :: "string \<Rightarrow> string \<Rightarrow> entry \<Rightarrow> bool" where
  "in_scope prefix normalizedSubfolder e =
     (relativePath prefix e = normalizedSubfolder \<or>
      starts_with (relativePath prefix e) (normalizedSubfolder @ ''/''))"

definition localPath :: "string \<Rightarrow> string \<Rightarrow> string \<Rightarrow> entry \<Rightarrow> string" where
  "localPath outputDir prefix normalizedSubfolder e =
     posix_join outputDir (replace_first (normalizedSubfolder @ ''/'') [] (relativePath prefix e))"

definition warn_failed :: "entry \<Rightarrow> fs_error \<Rightarrow> event" where
  "warn_failed e err = Warn (''Failed to extract '' @ path e @ '': '' @ message err)"

text \<open>
  When the \<open>catch\<close> of the loop takes over for a file entry, nobody has read the entry
  and nothing drains it (only the entries out of scope are drained): the stream goes on
  only if the content fits its buffers.
\<close>

definition left_unread :: "nat \<Rightarrow> entry \<Rightarrow> state \<Rightarrow> state" where
  "left_unread cap e st = st\<lparr>stalled := cap < length (content e)\<rparr>"

definition extract_entry ::
  "faults \<Rightarrow> nat \<Rightarrow> string \<Rightarrow> string \<Rightarrow> string \<Rightarrow> entry \<Rightarrow> state \<Rightarrow> state" where
  "extract_entry flt cap outputDir prefix normalizedSubfolder e st =
     (if in_scope prefix normalizedSubfolder e then
        let st1 = st\<lparr>matchedSomething := True\<rparr>;
            dest = localPath outputDir prefix normalizedSubfolder e
        in if type e = Directory then
             (case ensureDir flt dest (files st1) of
                (f, Some err) \<Rightarrow> tell (warn_failed e err) (st1\<lparr>files := f\<rparr>)
              | (f, None) \<Rightarrow> st1\<lparr>files := f\<rparr>)
           else
             (case ensureDir flt (posix_dirname dest) (files st1) of
                (f, Some err) \<Rightarrow> left_unread cap e (tell (warn_failed e err) (st1\<lparr>files := f\<rparr>))
              | (f, None) \<Rightarrow>
                  (case write_file flt dest (content e) f of
                     (f', Some err) \<Rightarrow>
                       left_unread cap e (tell (warn_failed e err) (st1\<lparr>files := f'\<rparr>))
                   | (f', None) \<Rightarrow>
                       tell (Text (''Extracted '' @ show_nat (Suc (filesExtracted st1)) @ '' files...''))
                         (st1\<lparr>files := f', filesExtracted := Suc (filesExtracted st1)\<rparr>)))
      else st)"

text \<open>The \<open>for await\<close> loop: the next entry arrives only while the stream has not stalled.\<close>

fun extract_all ::
  "faults \<Rightarrow> nat \<Rightarrow> string \<Rightarrow> string \<Rightarrow> string \<Rightarrow> entry list \<Rightarrow> state \<Rightarrow> state" where
  "extract_all flt cap outputDir prefix normalizedSubfolder [] st = st"
| "extract_all flt cap outputDir prefix normalizedSubfolder (e # es) st =
     (if stalled st then st
      else extract_all flt cap outputDir prefix normalizedSubfolder es
             (extract_entry flt cap outputDir prefix normalizedSubfolder e st))"

section \<open>downloadFolder\<close>

text \<open>
  The outer \<open>catch\<close>: the message goes to the spinner, the temporary directory is removed
  when its name has been assigned, and the exit code is set.
\<close>

definition on_error :: "faults \<Rightarrow> string option \<Rightarrow> string \<Rightarrow> state \<Rightarrow> state" where
  "on_error flt tempDir msg st =
     (tell (Fail msg) st)
       \<lparr>files := (case tempDir of None \<Rightarrow> files st | Some t \<Rightarrow> fs_remove flt t (files st)),
        exitCode := 1\<rparr>"

definition outputDir_of :: "env \<Rightarrow> string \<Rightarrow> string option \<Rightarrow> string" where
  "outputDir_of E sub target =
     (let base = posix_basename (strip_trailing_slash sub);
          defaultDirName = (if base = [] then ''downloaded-folder'' else base)
      in posix_resolve (cwd E) (cwd E) (if truthy target then js_str target else defaultDirName))"

definition tempDir_of :: "env \<Rightarrow> string" where
  "tempDir_of E = posix_join (tmpdir E) (''gh-folder-'' @ show_nat (now E))"

definition finalBranch_of :: "env \<Rightarrow> repo_ref \<Rightarrow> string + string option" where
  "finalBranch_of E ref =
     (if truthy (branch ref) then Inr (branch ref)
      else getDefaultBranch E (owner ref) (repo ref))"

definition zipUrl_of :: "repo_ref \<Rightarrow> string option \<Rightarrow> string" where
  "zipUrl_of ref finalBranch =
     ''https://github.com/'' @ js_str (owner ref) @ ''/'' @ js_str (repo ref) @
     ''/archive/refs/heads/'' @ js_str finalBranch @ ''.zip''"

definition prefix_of :: "repo_ref \<Rightarrow> string option \<Rightarrow> string" where
  "prefix_of ref finalBranch = js_str (repo ref) @ ''-'' @ js_str finalBranch @ ''/''"

definition fetching_text :: "repo_ref \<Rightarrow> event" where
  "fetching_text ref =
     Text (''Fetching ZIP from '' @
           (if truthy (branch ref) then js_str (branch ref) else ''default branch''))"

text \<open>What follows the loop: a broken stream, nothing matched, or success.\<close>

definition not_found :: "string \<Rightarrow> event" where
  "not_found sub = Fail (''Subfolder \"'' @ sub @ ''\" not found in repo.'')"

definition succeeded :: "string \<Rightarrow> string \<Rightarrow> nat \<Rightarrow> event" where
  "succeeded sub outputDir n =
     Succeed (''Successfully downloaded '' @ sub @ '' to '' @ outputDir @
              '' ('' @ show_nat n @ '' files)'')"

definition conclude :: "env \<Rightarrow> string \<Rightarrow> string \<Rightarrow> string option \<Rightarrow> state \<Rightarrow> state" where
  "conclude E sub outputDir broken st =
     (case broken of
        Some msg \<Rightarrow> on_error (fault E) (Some (tempDir_of E)) msg st
      | None \<Rightarrow>
          if \<not> matchedSomething st then
            (tell (not_found sub) st)
              \<lparr>files := fs_remove (fault E) (tempDir_of E) (files st), exitCode := 1\<rparr>
          else tell (succeeded sub outputDir (filesExtracted st)) st)"

text \<open>
  The part of the \<open>try\<close> block after the check of the target path. When the stream
  stalls, the statements after the loop are never reached.
\<close>

definition extract_phase :: "env \<Rightarrow> string \<Rightarrow> string \<Rightarrow> string \<Rightarrow> archive \<Rightarrow> state \<Rightarrow> state" where
  "extract_phase E sub outputDir prefix ar st =
     (case ensureDir (fault E) (tempDir_of E) (files st) of
        (f1, Some err) \<Rightarrow>
          on_error (fault E) (Some (tempDir_of E)) (message err) (st\<lparr>files := f1\<rparr>)
      | (f1, None) \<Rightarrow>
     (case ensureDir (fault E) outputDir f1 of
        (f2, Some err) \<Rightarrow>
          on_error (fault E) (Some (tempDir_of E)) (message err) (st\<lparr>files := f2\<rparr>)
      | (f2, None) \<Rightarrow>
          let st2 = extract_all (fault E) (streamBuffer E) outputDir prefix
                      (strip_trailing_slash sub) (entries ar)
                      (st\<lparr>files := f2, filesExtracted := 0, matchedSomething := False,
                          stalled := False\<rparr>)
          in if stalled st2 then st2 else conclude E sub outputDir (stream_error ar) st2))"

definition downloadFolder :: "env \<Rightarrow> string \<Rightarrow> string \<Rightarrow> string option \<Rightarrow> state \<Rightarrow> state" where
  "downloadFolder E repoUrl sub target st0 =
     (let st = tell (Start ''Preparing download...'') st0 in
      case parseGitHubUrl repoUrl of
        Inl msg \<Rightarrow> on_error (fault E) None msg st
      | Inr ref \<Rightarrow>
     (case finalBranch_of E ref of
        Inl msg \<Rightarrow> on_error (fault E) None msg st
      | Inr finalBranch \<Rightarrow>
          let st = tell (fetching_text ref) st in
          (case fetch E (zipUrl_of ref finalBranch) of
             Inl msg \<Rightarrow> on_error (fault E) (Some (tempDir_of E)) msg st
           | Inr res \<Rightarrow>
               if \<not> ok res then
                 on_error (fault E) (Some (tempDir_of E))
                   (''Failed to download ZIP: '' @ statusText res) st
               else
                 (case body res of
                    None \<Rightarrow> on_error (fault E) (Some (tempDir_of E)) ''Error fetching data'' st
                  | Some ar \<Rightarrow>
                      let outputDir = outputDir_of E sub target in
                      (case target_guard (fault E) (files st) outputDir of
                         Proceed \<Rightarrow>
                           extract_phase E sub outputDir (prefix_of ref finalBranch) ar st
                       | blocked \<Rightarrow>
                           (tell (Fail (guard_message outputDir blocked)) st)\<lparr>exitCode := 1\<rparr>)))))"

section \<open>Notions used to state the properties\<close>

text \<open>
  \<open>reaches_guard\<close>: the reference parses, the branch is resolved and the archive request
  returns a readable body, so the run arrives at the check of the target path.
  \<open>extraction_starts\<close>: moreover the check lets the run proceed and the temporary and
  the output directory are created, leaving the file system \<open>f2\<close>.
\<close>

definition reaches_guard :: "env \<Rightarrow> string \<Rightarrow> repo_ref \<Rightarrow> string option \<Rightarrow> archive \<Rightarrow> bool" where
  "reaches_guard E repoUrl ref finalBranch ar =
     (parseGitHubUrl repoUrl = Inr ref \<and> finalBranch_of E ref = Inr finalBranch \<and>
      (case fetch E (zipUrl_of ref finalBranch) of
         Inl msg \<Rightarrow> False
       | Inr res \<Rightarrow> ok res \<and> body res = Some ar))"

definition extraction_starts ::
  "env \<Rightarrow> string \<Rightarrow> string \<Rightarrow> string option \<Rightarrow> state \<Rightarrow> repo_ref \<Rightarrow> string option \<Rightarrow> archive \<Rightarrow> filesystem \<Rightarrow> bool" where
  "extraction_starts E repoUrl sub target st0 ref finalBranch ar f2 =
     (reaches_guard E repoUrl ref finalBranch ar \<and>
      target_guard (fault E) (files st0) (outputDir_of E sub target) = Proceed \<and>
      (case ensureDir (fault E) (tempDir_of E) (files st0) of
         (f1, Some err) \<Rightarrow> False
       | (f1, None) \<Rightarrow> ensureDir (fault E) (outputDir_of E sub target) f1 = (f2, None)))"

definition loop_start :: "repo_ref \<Rightarrow> state \<Rightarrow> filesystem \<Rightarrow> state" where
  "loop_start ref st0 f2 =
     st0\<lparr>spinner := spinner st0 @ [Start ''Preparing download...'', fetching_text ref],
         files := f2, filesExtracted := 0, matchedSomething := False, stalled := False\<rparr>"

section \<open>A concrete environment\<close>

text \<open>
  A working directory \<open>/work\<close>, a temporary directory \<open>/tmp\<close>, a stream that
  buffers 16 characters, and a network that answers the archive request for branch
  \<open>branch\<close> of \<open>owner/repo\<close> with the archive \<open>ar\<close> and fails every other request.
\<close>

definition no_faults :: faults where
  "no_faults = (\<lambda>call p. None)"

definition env_for :: "faults \<Rightarrow> archive \<Rightarrow> env" where
  "env_for flt ar =
     \<lparr>cwd = ''/work'', tmpdir = ''/tmp'', now = 1700, streamBuffer = 16, fault = flt,
      fetch = (\<lambda>url. if url = ''https://github.com/owner/repo/archive/refs/heads/branch.zip''
                      then Inr \<lparr>ok = True, statusText = ''OK'', json_default_branch = Inr None,
                                body = Some ar\<rparr>
                      else Inl ''request failed'')\<rparr>"

definition ex_ref :: repo_ref where
  "ex_ref = \<lparr>owner = Some ''owner'', repo = Some ''repo'', branch = Some ''branch'', subfolder = None\<rparr>"

definition ex_state :: state where
  "ex_state = \<lparr>files = [(''/work'', DirNode), (''/tmp'', DirNode)], spinner = [], exitCode = 0,
               filesExtracted = 0, matchedSomething = False, stalled = False\<rparr>"

definition ex_archive :: archive where
  "ex_archive =
     \<lparr>entries =
        [\<lparr>path = ''repo-branch/'', type = Directory, content = []\<rparr>,
         \<lparr>path = ''repo-branch/keep/a.txt'', type = File, content = ''A''\<rparr>,
         \<lparr>path = ''repo-branch/keep/sub/b.txt'', type = File, content = ''B''\<rparr>,
         \<lparr>path = ''repo-branch/skip/c.txt'', type = File, content = ''C''\<rparr>],
      stream_error = None\<rparr>"

definition occupied_state :: state where
  "occupied_state =
     ex_state\<lparr>files := [(''/work/output/old.txt'', FileNode ''old''), (''/work/output'', DirNode),
                        (''/work'', DirNode), (''/tmp'', DirNode)]\<rparr>"

definition denied :: fs_error where
  "denied = \<lparr>code = ''EACCES'', message = ''EACCES: permission denied''\<rparr>"

text \<open>
  The file system when the loop starts in this environment; an archive whose in-scope
  entries are all directories; an archive of three small files, the same with a second
  file of twenty characters, and a fault that refuses the second file; an archive whose
  only entry is the subfolder path itself; a state in which the path of the run's
  temporary directory is a directory that holds a file.
\<close>

definition ex_loop_files :: filesystem where
  "ex_loop_files = [(''/work/output'', DirNode), (''/tmp/gh-folder-1700'', DirNode),
                    (''/work'', DirNode), (''/tmp'', DirNode)]"

definition dirs_archive :: archive where
  "dirs_archive =
     \<lparr>entries =
        [\<lparr>path = ''repo-branch/'', type = Directory, content = []\<rparr>,
         \<lparr>path = ''repo-branch/keep/'', type = Directory, content = []\<rparr>,
         \<lparr>path = ''repo-branch/keep/sub/'', type = Directory, content = []\<rparr>,
         \<lparr>path = ''repo-branch/skip/c.txt'', type = File, content = ''C''\<rparr>],
      stream_error = None\<rparr>"

definition three_files :: archive where
  "three_files =
     \<lparr>entries =
        [\<lparr>path = ''repo-branch/keep/a.txt'', type = File, content = ''A''\<rparr>,
         \<lparr>path = ''repo-branch/keep/b.txt'', type = File, content = ''B''\<rparr>,
         \<lparr>path = ''repo-branch/keep/c.txt'', type = File, content = ''C''\<rparr>],
      stream_error = None\<rparr>"

definition deny_b :: faults where
  "deny_b = (\<lambda>call p. if call = Open \<and> p = ''/work/output/b.txt'' then Some denied else None)"

definition three_files_big :: archive where
  "three_files_big =
     \<lparr>entries =
        [\<lparr>path = ''repo-branch/keep/a.txt'', type = File, content = ''A''\<rparr>,
         \<lparr>path = ''repo-branch/keep/b.txt'', type = File, content = ''BBBBBBBBBBBBBBBBBBBB''\<rparr>,
         \<lparr>path = ''repo-branch/keep/c.txt'', type = File, content = ''C''\<rparr>],
      stream_error = None\<rparr>"

definition temp_occupied_state :: state where
  "temp_occupied_state =
     ex_state\<lparr>files := [(''/tmp/gh-folder-1700/old.txt'', FileNode ''old''),
                        (''/tmp/gh-folder-1700'', DirNode), (''/work'', DirNode), (''/tmp'', DirNode)]\<rparr>"

definition single_archive :: archive where
  "single_archive =
     \<lparr>entries = [\<lparr>path = ''repo-branch/keep'', type = File, content = ''K''\<rparr>],
      stream_error = None\<rparr>"

section \<open>Normal forms of paths\<close>

text \<open>Segments as normalisation leaves them: not empty, not \<open>.\<close> or \<open>..\<close>, without a slash.\<close>

definition clean :: "string list \<Rightarrow> bool" where
  "clean segs = (\<forall>s\<in>set segs. s \<noteq> [] \<and> s \<noteq> ''.'' \<and> s \<noteq> ''..'' \<and> CHR ''/'' \<notin> set s)"

section \<open>Notions used to state the properties of the parser\<close>

text \<open>
  \<open>groups\<close>: the four captures \<open>m[1]\<close> to \<open>m[4]\<close> of \<open>input.match(r)\<close>, or
  \<open>None\<close> when the pattern does not match.
  \<open>plain\<close>: a non-empty string without a line terminator, which is what \<open>.+\<close> can
  match as a whole. \<open>name_string\<close>: a non-empty string of the characters
  \<open>[\w.-]\<close>.
  \<open>find_sub\<close>: the index of the first occurrence of a string, as \<open>indexOf\<close> gives it.
  \<open>repo_suffix\<close>: what may follow the repo name in the generic pattern, an optional
  \<open>.git\<close> and an optional \<open>#branch\<close>. \<open>git_stem\<close>: a name that ends in \<open>.git\<close>
  after at least one other character.
\<close>

definition groups :: "string \<Rightarrow> rx \<Rightarrow> string option list option" where
  "groups input r = map_option (\<lambda>m. map m [1, 2, 3, 4]) (js_match input r)"

definition plain :: "string \<Rightarrow> bool" where
  "plain s = (s \<noteq> [] \<and> list_all dot_char s)"


fun find_sub :: "string \<Rightarrow> string \<Rightarrow> nat option" where
  "find_sub w [] = (if w = [] then Some 0 else None)"
| "find_sub w (x # xs) =
     (if starts_with (x # xs) w then Some 0 else map_option Suc (find_sub w xs))"

definition git_stem :: "string \<Rightarrow> bool" where
  "git_stem s = (4 < length s \<and> drop (length s - 4) s = ''.git'')"

definition repo_suffix :: "bool \<Rightarrow> string option \<Rightarrow> string" where
  "repo_suffix git br =
     (if git then ''.git'' else []) @ (case br of None \<Rightarrow> [] | Some b \<Rightarrow> ''#'' @ b)"

text \<open>
  The tails of the shorthand and of the generic pattern, and the captures of a match
  with the branch added when there is one.
\<close>

definition branchTail :: rx where
  "branchTail = Seq (Opt (Seq (Lit ''#'') (Group 3 (Plus Greedy dot_char)))) Eol"

definition gitTail :: rx where
  "gitTail = Seq (Opt (Lit ''.git'')) branchTail"

definition with_branch :: "captures \<Rightarrow> string option \<Rightarrow> captures" where
  "with_branch c br = (case br of None \<Rightarrow> c | Some b \<Rightarrow> c(3 \<mapsto> b))"

section \<open>From the start of a run to the check and to the loop\<close>

lemma files_tell [simp]: "files (tell ev st) = files st"
  by (simp add: tell_def)

lemma exitCode_tell [simp]: "exitCode (tell ev st) = exitCode st"
  by (simp add: tell_def)

lemma filesExtracted_tell [simp]: "filesExtracted (tell ev st) = filesExtracted st"
  by (simp add: tell_def)

lemma matchedSomething_tell [simp]: "matchedSomething (tell ev st) = matchedSomething st"
  by (simp add: tell_def)

lemma stalled_tell [simp]: "stalled (tell ev st) = stalled st"
  by (simp add: tell_def)

lemma spinner_tell [simp]: "spinner (tell ev st) = spinner st @ [ev]"
  by (simp add: tell_def)

lemma downloadFolder_at_guard:
  assumes "reaches_guard E repoUrl ref finalBranch ar"
  shows "downloadFolder E repoUrl sub target st0 =
           (case target_guard (fault E) (files st0) (outputDir_of E sub target) of
              Proceed \<Rightarrow>
                extract_phase E sub (outputDir_of E sub target) (prefix_of ref finalBranch) ar
                  (st0\<lparr>spinner := spinner st0 @
                         [Start ''Preparing download...'', fetching_text ref]\<rparr>)
            | blocked \<Rightarrow>
                st0\<lparr>spinner := spinner st0 @
                      [Start ''Preparing download...'', fetching_text ref,
                       Fail (guard_message (outputDir_of E sub target) blocked)],
                    exitCode := 1\<rparr>)"
  using assms
  by (auto simp: reaches_guard_def downloadFolder_def Let_def tell_def
           split: sum.splits guard_outcome.splits)

lemma downloadFolder_extracts:
  assumes "extraction_starts E repoUrl sub target st0 ref finalBranch ar f2"
  shows "downloadFolder E repoUrl sub target st0 =
           (let st2 = extract_all (fault E) (streamBuffer E) (outputDir_of E sub target)
                        (prefix_of ref finalBranch) (strip_trailing_slash sub) (entries ar)
                        (loop_start ref st0 f2)
            in if stalled st2 then st2
               else conclude E sub (outputDir_of E sub target) (stream_error ar) st2)"
proof -
  from assms have g: "reaches_guard E repoUrl ref finalBranch ar"
    and p: "target_guard (fault E) (files st0) (outputDir_of E sub target) = Proceed"
    and d: "case ensureDir (fault E) (tempDir_of E) (files st0) of
              (f1, Some err) \<Rightarrow> False
            | (f1, None) \<Rightarrow> ensureDir (fault E) (outputDir_of E sub target) f1 = (f2, None)"
    by (simp_all add: extraction_starts_def)
  obtain f1 r1 where e1: "ensureDir (fault E) (tempDir_of E) (files st0) = (f1, r1)"
    by (cases "ensureDir (fault E) (tempDir_of E) (files st0)")
  with d have r1: "r1 = None" and e2: "ensureDir (fault E) (outputDir_of E sub target) f1 = (f2, None)"
    by (cases r1; simp)+
  show ?thesis
    by (simp add: downloadFolder_at_guard [OF g] p extract_phase_def e1 r1 e2 loop_start_def Let_def)
qed


section \<open>The loop, entry by entry\<close>

lemma extract_entry_skip:
  "\<not> in_scope prefix nsub e \<Longrightarrow> extract_entry flt cap out prefix nsub e st = st"
  by (simp add: extract_entry_def)

lemma extract_all_stalled: "stalled st \<Longrightarrow> extract_all flt cap out prefix nsub es st = st"
  by (cases es) simp_all

lemma extract_all_skip:
  "\<forall>e\<in>set es. \<not> in_scope prefix nsub e \<Longrightarrow> extract_all flt cap out prefix nsub es st = st"
  by (induction es arbitrary: st) (simp_all add: extract_entry_skip)

lemma exitCode_extract_entry:
  "exitCode (extract_entry flt cap out prefix nsub e st) = exitCode st"
  by (simp add: extract_entry_def left_unread_def Let_def split: prod.splits option.splits)

lemma exitCode_extract_all:
  "exitCode (extract_all flt cap out prefix nsub es st) = exitCode st"
  by (induction es arbitrary: st) (simp_all add: exitCode_extract_entry)

lemma matched_extract_entry:
  "matchedSomething (extract_entry flt cap out prefix nsub e st) =
     (matchedSomething st \<or> in_scope prefix nsub e)"
  by (simp add: extract_entry_def left_unread_def Let_def split: prod.splits option.splits)

text \<open>A directory entry carries no content: it changes neither the count nor the stream.\<close>

lemma count_directory_entry:
  "in_scope prefix nsub e \<longrightarrow> type e = Directory \<Longrightarrow>
   filesExtracted (extract_entry flt cap out prefix nsub e st) = filesExtracted st"
  by (simp add: extract_entry_def Let_def split: prod.splits option.splits)

lemma stalled_directory_entry:
  "in_scope prefix nsub e \<longrightarrow> type e = Directory \<Longrightarrow>
   stalled (extract_entry flt cap out prefix nsub e st) = stalled st"
  by (simp add: extract_entry_def Let_def split: prod.splits option.splits)

lemma dirs_only_stalled:
  "\<forall>e\<in>set es. in_scope prefix nsub e \<longrightarrow> type e = Directory \<Longrightarrow>
   stalled (extract_all flt cap out prefix nsub es st) = stalled st"
  by (induction es arbitrary: st) (simp_all add: stalled_directory_entry)

lemma dirs_only_count:
  "\<forall>e\<in>set es. in_scope prefix nsub e \<longrightarrow> type e = Directory \<Longrightarrow>
   filesExtracted (extract_all flt cap out prefix nsub es st) = filesExtracted st"
  by (induction es arbitrary: st) (simp_all add: count_directory_entry)

lemma dirs_only_matched:
  "\<forall>e\<in>set es. in_scope prefix nsub e \<longrightarrow> type e = Directory \<Longrightarrow> \<not> stalled st \<Longrightarrow>
   matchedSomething (extract_all flt cap out prefix nsub es st) =
     (matchedSomething st \<or> (\<exists>e\<in>set es. in_scope prefix nsub e))"
  by (induction es arbitrary: st)
     (auto simp: matched_extract_entry stalled_directory_entry)

lemma ex_reaches_guard:
  "reaches_guard (env_for flt ar) ''owner/repo#branch'' ex_ref (Some ''branch'') ar"
  by (simp add: reaches_guard_def) code_simp

lemma fault_env_for [simp]: "fault (env_for flt ar) = flt"
  by (simp add: env_for_def)

lemma no_faults_apply [simp]: "no_faults call p = None"
  by (simp add: no_faults_def)


lemma replace_first_prefix: "replace_first pat rep (pat @ r) = rep @ r"
  by (cases pat; cases r) (simp_all add: starts_with_def)

lemma replace_first_short: "length s < length pat \<Longrightarrow> replace_first pat rep s = s"
  by (induction s arbitrary: pat) (auto simp: starts_with_def)

lemma ex_extraction_starts:
  "extraction_starts (env_for no_faults ar) ''owner/repo#branch'' sub (Some ''output'') ex_state
     ex_ref (Some ''branch'') ar ex_loop_files"
proof -
  have o: "outputDir_of (env_for no_faults ar) sub (Some ''output'') = ''/work/output''"
    by (simp add: outputDir_of_def env_for_def) code_simp
  have t: "tempDir_of (env_for no_faults ar) = ''/tmp/gh-folder-1700''"
    by (simp add: tempDir_of_def env_for_def) code_simp
  have g: "target_guard no_faults (files ex_state) ''/work/output'' = Proceed"
    by code_simp
  have e1: "ensureDir no_faults ''/tmp/gh-folder-1700'' (files ex_state) =
              ([(''/tmp/gh-folder-1700'', DirNode), (''/work'', DirNode), (''/tmp'', DirNode)], None)"
    by code_simp
  have e2: "ensureDir no_faults ''/work/output''
              [(''/tmp/gh-folder-1700'', DirNode), (''/work'', DirNode), (''/tmp'', DirNode)] =
              (ex_loop_files, None)"
    by code_simp
  show ?thesis
    by (simp add: extraction_starts_def ex_reaches_guard o t g e1 e2)
qed

section \<open>Resolved paths are normal\<close>

lemma split_slash_no_slash: "s \<in> set (split_slash p) \<Longrightarrow> CHR ''/'' \<notin> set s"
  by (induction p arbitrary: s) (auto split: list.splits if_splits)

lemma split_slash_plain: "CHR ''/'' \<notin> set x \<Longrightarrow> split_slash x = [x]"
  by (induction x) auto

lemma split_slash_app: "CHR ''/'' \<notin> set x \<Longrightarrow> split_slash (x @ CHR ''/'' # r) = x # split_slash r"
  by (induction x) auto

lemma clean_Nil [simp]: "clean []"
  by (simp add: clean_def)

lemma clean_Cons:
  "clean (x # xs) \<longleftrightarrow> x \<noteq> [] \<and> x \<noteq> ''.'' \<and> x \<noteq> ''..'' \<and> CHR ''/'' \<notin> set x \<and> clean xs"
  by (simp add: clean_def)

lemma split_join: "clean segs \<Longrightarrow> segs \<noteq> [] \<Longrightarrow> split_slash (join_slash segs) = segs"
proof (induction segs rule: join_slash.induct)
  case (3 x y zs)
  then show ?case by (simp add: clean_def split_slash_app)
qed (simp_all add: clean_def split_slash_plain)

lemma norm_segs_clean_out:
  "\<forall>s\<in>set xs. CHR ''/'' \<notin> set s \<Longrightarrow> clean acc \<Longrightarrow> clean (norm_segs False xs acc)"
proof (induction xs arbitrary: acc)
  case Nil
  then show ?case by (simp add: clean_def)
next
  case (Cons x xs)
  from Cons.prems have xs: "\<forall>s\<in>set xs. CHR ''/'' \<notin> set s" and x: "CHR ''/'' \<notin> set x"
    by simp_all
  show ?case
  proof (cases "x = [] \<or> x = ''.''")
    case True
    then show ?thesis using Cons.IH [OF xs Cons.prems(2)] by auto
  next
    case False
    show ?thesis
    proof (cases "x = ''..''")
      case True
      show ?thesis
      proof (cases acc)
        case Nil
        with True show ?thesis using Cons.IH [OF xs, of "[]"] by simp
      next
        case (Cons y ys)
        with Cons.prems(2) have "clean ys" and "y \<noteq> ''..''" by (simp_all add: clean_Cons)
        with True Cons show ?thesis using Cons.IH [OF xs, of ys] by simp
      qed
    next
      case n: False
      with False x Cons.prems(2) have "clean (x # acc)" by (simp add: clean_Cons)
      with False n show ?thesis using Cons.IH [OF xs, of "x # acc"] by simp
    qed
  qed
qed

lemma norm_segs_clean_in: "clean xs \<Longrightarrow> norm_segs up xs acc = rev acc @ xs"
proof (induction xs arbitrary: acc)
  case Nil
  then show ?case by simp
next
  case (Cons x xs)
  then have "x \<noteq> []" "x \<noteq> ''.''" "x \<noteq> ''..''" "clean xs" by (simp_all add: clean_Cons)
  with Cons.IH [of "x # acc"] show ?case by simp
qed

lemma clean_normalized: "clean (norm_segs False (split_slash p) [])"
  by (rule norm_segs_clean_out) (simp_all add: split_slash_no_slash)

lemma join_slash_empty: "clean segs \<Longrightarrow> join_slash segs = [] \<longleftrightarrow> segs = []"
  by (cases segs rule: join_slash.cases) (simp_all add: clean_def)

lemma clean_tl: "clean (x # xs) \<Longrightarrow> clean xs"
  by (simp add: clean_Cons)

lemma last_join_slash: "clean segs \<Longrightarrow> segs \<noteq> [] \<Longrightarrow> last (join_slash segs) \<noteq> CHR ''/''"
proof (induction segs rule: join_slash.induct)
  case 1
  then show ?case by simp
next
  case (2 x)
  then have "x \<noteq> []" and "CHR ''/'' \<notin> set x" by (simp_all add: clean_def)
  then have "last x \<in> set x" by simp
  with \<open>CHR ''/'' \<notin> set x\<close> show ?case by auto
next
  case (3 x y zs)
  from 3(2) have c: "clean (y # zs)" by (rule clean_tl)
  then have "join_slash (y # zs) \<noteq> []" by (simp add: join_slash_empty)
  with 3(1) [OF c] show ?case by simp
qed

lemma normalize_rooted:
  assumes "clean segs"
  shows "posix_normalize (CHR ''/'' # join_slash segs) = CHR ''/'' # join_slash segs"
proof (cases "segs = []")
  case True
  then show ?thesis
    by (simp add: posix_normalize_def normalizeString_def is_absolute_def)
next
  case False
  with assms have s: "split_slash (join_slash segs) = segs"
    by (rule split_join)
  have n: "normalizeString (CHR ''/'' # join_slash segs) False = join_slash segs"
    by (simp add: normalizeString_def s norm_segs_clean_in [OF assms])
  from assms False have l: "last (join_slash segs) \<noteq> CHR ''/''"
    and e: "join_slash segs \<noteq> []"
    by (simp_all add: last_join_slash join_slash_empty)
  show ?thesis
    by (simp add: posix_normalize_def is_absolute_def n l e)
qed

lemma resolve_loop_hits: "\<exists>p\<in>set ps. is_absolute p \<Longrightarrow> snd (resolve_loop ps acc)"
  by (induction ps arbitrary: acc) (auto simp: is_absolute_def)

lemma resolved_rooted:
  assumes "is_absolute wd"
  shows "\<exists>segs. clean segs \<and> posix_resolve wd a b = CHR ''/'' # join_slash segs"
proof -
  obtain q r where l: "resolve_loop [b, a, wd] [] = (q, r)"
    by (cases "resolve_loop [b, a, wd] []")
  have "snd (resolve_loop [b, a, wd] [])"
    using assms by (intro resolve_loop_hits) simp
  with l have r: "r" by simp
  have "posix_resolve wd a b = CHR ''/'' # join_slash (norm_segs False (split_slash q) [])"
    unfolding posix_resolve_def l by (simp add: r normalizeString_def)
  then show ?thesis using clean_normalized by blast
qed

lemma join_empty_resolved:
  assumes "is_absolute wd"
  shows "posix_join (posix_resolve wd a b) [] = posix_resolve wd a b"
proof -
  from resolved_rooted [OF assms] obtain segs where c: "clean segs"
    and p: "posix_resolve wd a b = CHR ''/'' # join_slash segs" by blast
  show ?thesis
    by (simp add: posix_join_def p normalize_rooted [OF c])
qed

lemma join_empty_outputDir:
  "is_absolute (cwd E) \<Longrightarrow> posix_join (outputDir_of E sub target) [] = outputDir_of E sub target"
  by (simp add: outputDir_of_def Let_def join_empty_resolved)

section \<open>What ensureDir leaves behind\<close>

lemma fs_key_rooted: "clean segs \<Longrightarrow> fs_key (CHR ''/'' # join_slash segs) = CHR ''/'' # join_slash segs"
proof (cases "segs = []")
  case True
  then show ?thesis by (simp add: fs_key_def normalizeString_def is_absolute_def)
next
  case False
  assume c: "clean segs"
  with False have "split_slash (join_slash segs) = segs" by (simp add: split_join)
  then show ?thesis
    by (simp add: fs_key_def normalizeString_def is_absolute_def norm_segs_clean_in [OF c])
qed

lemma map_of_filter_other:
  "k \<noteq> d \<Longrightarrow> map_of (filter (\<lambda>(q, _). q \<noteq> d) f) k = map_of f k"
  by (induction f) auto

lemma fs_remove_elsewhere: "\<not> below p q \<Longrightarrow> map_of (fs_remove flt p f) q = map_of f q"
  by (induction f) (auto simp: fs_remove_def split: option.splits)

lemma fs_lookup_put:
  "fs_lookup (fs_put d n f) q =
     (if fs_key q = ''/'' then Some DirNode
      else if fs_key q = fs_key d then Some n else fs_lookup f q)"
  by (simp add: fs_lookup_def fs_put_def map_of_filter_other)

lemma mkdirs_keeps:
  "fs_lookup f q = Some DirNode \<Longrightarrow> fs_lookup (fst (mkdirs flt ds f)) q = Some DirNode"
proof (induction ds arbitrary: f)
  case Nil
  then show ?case by simp
next
  case (Cons d ds)
  have "fs_lookup (fs_put d DirNode f) q = Some DirNode"
    using Cons.prems by (simp add: fs_lookup_put)
  with Cons show ?case
    by (auto split: option.splits node.splits)
qed

lemma mkdirs_all:
  "mkdirs flt ds f = (f', None) \<Longrightarrow> d \<in> set ds \<Longrightarrow> fs_lookup f' d = Some DirNode"
proof (induction ds arbitrary: f)
  case Nil
  then show ?case by simp
next
  case (Cons x ds)
  show ?case
  proof (cases "fs_lookup f x")
    case None
    with Cons.prems(1) have m: "mkdirs flt ds (fs_put x DirNode f) = (f', None)"
      by (auto split: option.splits)
    show ?thesis
    proof (cases "d = x")
      case True
      have "fs_lookup (fs_put x DirNode f) x = Some DirNode"
        by (simp add: fs_lookup_put)
      from mkdirs_keeps [OF this, of flt ds] m True show ?thesis by simp
    next
      case False
      with Cons.prems(2) have "d \<in> set ds" by simp
      from Cons.IH [OF m this] show ?thesis .
    qed
  next
    case (Some n)
    with Cons.prems(1) have n: "n = DirNode" and m: "mkdirs flt ds f = (f', None)"
      by (auto split: node.splits)
    show ?thesis
    proof (cases "d = x")
      case True
      from mkdirs_keeps [of f x flt ds] Some n m True show ?thesis by simp
    next
      case False
      with Cons.prems(2) have "d \<in> set ds" by simp
      from Cons.IH [OF m this] show ?thesis .
    qed
  qed
qed

lemma ancestors_nonempty: "segs \<noteq> [] \<Longrightarrow> ancestors base segs \<noteq> []"
  by (cases segs) (simp_all add: Let_def)

lemma last_ancestors:
  "clean segs \<Longrightarrow> segs \<noteq> [] \<Longrightarrow>
   last (ancestors base segs) =
     (if base = [] \<or> base = ''/'' then base else base @ ''/'') @ join_slash segs"
proof (induction segs arbitrary: base)
  case Nil
  then show ?case by simp
next
  case (Cons x xs)
  from Cons.prems have x: "x \<noteq> []" "CHR ''/'' \<notin> set x" and c: "clean xs"
    by (simp_all add: clean_Cons)
  define here where "here = (if base = [] \<or> base = ''/'' then base else base @ ''/'') @ x"
  have a: "ancestors base (x # xs) = here # ancestors here xs"
    by (simp add: Let_def here_def)
  show ?case
  proof (cases xs)
    case Nil
    then show ?thesis by (simp add: a here_def)
  next
    case (Cons y ys)
    have "here \<noteq> []" and "here \<noteq> ''/''"
      using x by (auto simp: here_def append_eq_Cons_conv)
    moreover have "xs \<noteq> []" using Cons by simp
    ultimately have "last (ancestors here xs) = here @ ''/'' @ join_slash xs"
      using Cons.IH [OF c, of here] by simp
    moreover have "ancestors here xs \<noteq> []"
      using \<open>xs \<noteq> []\<close> by (rule ancestors_nonempty)
    ultimately have "last (ancestors base (x # xs)) = here @ ''/'' @ join_slash xs"
      by (simp add: a del: ancestors.simps)
    then show ?thesis by (simp add: here_def Cons)
  qed
qed

lemma ensureDir_creates:
  assumes "is_absolute p" and "ensureDir flt p f = (f', None)"
  shows "fs_lookup f' p = Some DirNode"
proof -
  let ?segs = "norm_segs False (split_slash p) []"
  have c: "clean ?segs" by (rule clean_normalized)
  have k: "fs_key p = CHR ''/'' # join_slash ?segs"
    using assms(1) by (simp add: fs_key_def normalizeString_def)
  show ?thesis
  proof (cases "?segs = []")
    case True
    with k show ?thesis by (simp add: fs_lookup_def)
  next
    case False
    let ?d = "last (ancestors ''/'' ?segs)"
    have d: "?d = CHR ''/'' # join_slash ?segs"
      using last_ancestors [OF c False, of "''/''"] by simp
    have "?d \<in> set (ancestors ''/'' ?segs)"
      using ancestors_nonempty [OF False] by simp
    moreover have "mkdirs flt (ancestors ''/'' ?segs) f = (f', None)"
      using assms by (simp add: ensureDir_def ancestor_chain_def)
    ultimately have "fs_lookup f' ?d = Some DirNode"
      by (rule mkdirs_all [rotated])
    moreover have "fs_key ?d = fs_key p"
      unfolding d k by (rule fs_key_rooted [OF c])
    then have "fs_lookup f' p = fs_lookup f' ?d"
      by (simp add: fs_lookup_def)
    ultimately show ?thesis by simp
  qed
qed

lemma resolve_absolute: "is_absolute wd \<Longrightarrow> is_absolute (posix_resolve wd a b)"
proof -
  assume "is_absolute wd"
  from resolved_rooted [OF this, of a b] obtain segs
    where "posix_resolve wd a b = CHR ''/'' # join_slash segs" by blast
  then show ?thesis by (simp add: is_absolute_def)
qed

lemma outputDir_absolute: "is_absolute (cwd E) \<Longrightarrow> is_absolute (outputDir_of E sub target)"
  by (simp add: outputDir_of_def Let_def resolve_absolute)

lemma extraction_starts_directory:
  assumes "extraction_starts E repoUrl sub target st0 ref finalBranch ar f2" and "is_absolute (cwd E)"
  shows "fs_lookup f2 (outputDir_of E sub target) = Some DirNode"
proof -
  from assms(1) obtain f1 where "ensureDir (fault E) (outputDir_of E sub target) f1 = (f2, None)"
    by (auto simp: extraction_starts_def split: prod.splits option.splits)
  with outputDir_absolute [OF assms(2)] show ?thesis by (rule ensureDir_creates)
qed

section \<open>Resolving a path\<close>

lemma walk_dirs: "\<forall>d\<in>set ds. fs_lookup f d = Some DirNode \<Longrightarrow> walk f p ds = Inr DirNode"
  by (induction f p ds rule: walk.induct) simp_all

lemma walk_step:
  "fs_lookup f d = Some DirNode \<Longrightarrow> ds \<noteq> [] \<Longrightarrow> walk f p (d # ds) = walk f p ds"
  by (cases ds) simp_all

lemma walk_through:
  "\<forall>x\<in>set ds. fs_lookup f x = Some DirNode \<Longrightarrow> rest \<noteq> [] \<Longrightarrow>
   walk f p (ds @ rest) = walk f p rest"
  by (induction ds) (simp_all add: walk_step)

lemma walk_missing: "fs_lookup f x = None \<Longrightarrow> walk f p (x # rest) = Inl (enoent p)"
  by (cases rest) simp_all

lemma walk_file_on_way:
  "fs_lookup f x = Some (FileNode c) \<Longrightarrow> rest \<noteq> [] \<Longrightarrow> walk f p (x # rest) = Inl (enotdir p)"
  by (cases rest) simp_all

lemma node_at_last:
  assumes "ancestor_chain p = ds @ [d]" and "\<forall>x\<in>set ds. fs_lookup f x = Some DirNode"
  shows "node_at f p = (case fs_lookup f d of None \<Rightarrow> Inl (enoent p) | Some n \<Rightarrow> Inr n)"
  using walk_through [OF assms(2), of "[d]" p] by (simp add: node_at_def assms(1))

lemma node_at_missing:
  assumes "ancestor_chain p = ds @ x # rest" and "\<forall>y\<in>set ds. fs_lookup f y = Some DirNode"
    and "fs_lookup f x = None"
  shows "node_at f p = Inl (enoent p)"
  using walk_through [OF assms(2), of "x # rest" p] walk_missing [OF assms(3)]
  by (simp add: node_at_def assms(1))

lemma node_at_file_on_way:
  assumes "ancestor_chain p = ds @ x # rest" and "\<forall>y\<in>set ds. fs_lookup f y = Some DirNode"
    and "fs_lookup f x = Some (FileNode c)" and "rest \<noteq> []"
  shows "node_at f p = Inl (enotdir p)"
  using walk_through [OF assms(2), of "x # rest" p] walk_file_on_way [OF assms(3,4)]
  by (simp add: node_at_def assms(1))

lemma ensureDir_node_at: "ensureDir flt p f = (f', None) \<Longrightarrow> node_at f' p = Inr DirNode"
  unfolding ensureDir_def node_at_def
  by (rule walk_dirs) (simp add: mkdirs_all)

lemma extraction_starts_node:
  assumes "extraction_starts E repoUrl sub target st0 ref finalBranch ar f2"
  shows "node_at f2 (outputDir_of E sub target) = Inr DirNode"
proof -
  from assms obtain f1 where "ensureDir (fault E) (outputDir_of E sub target) f1 = (f2, None)"
    by (auto simp: extraction_starts_def split: prod.splits option.splits)
  then show ?thesis by (rule ensureDir_node_at)
qed

text \<open>The outcomes of the check in terms of the node that the path names.\<close>

lemma guard_file:
  "flt Stat p = None \<Longrightarrow> node_at f p = Inr (FileNode c) \<Longrightarrow> target_guard flt f p = ExistsAsFile"
  by (simp add: target_guard_def fs_stat_def)

lemma guard_directory:
  "flt Stat p = None \<Longrightarrow> flt Readdir p = None \<Longrightarrow> node_at f p = Inr DirNode \<Longrightarrow>
   target_guard flt f p = (if children f p \<noteq> [] then NotEmpty else Proceed)"
  by (simp add: target_guard_def fs_stat_def fs_readdir_def)

lemma guard_unresolved:
  "flt Stat p = None \<Longrightarrow> node_at f p = Inl err \<Longrightarrow>
   target_guard flt f p = (if code err = ''ENOENT'' then Proceed else ProbeError (message err))"
  by (simp add: target_guard_def fs_stat_def probe_catch_def)

lemma guard_stat_fails:
  "flt Stat p = Some err \<Longrightarrow>
   target_guard flt f p = (if code err = ''ENOENT'' then Proceed else ProbeError (message err))"
  by (simp add: target_guard_def fs_stat_def probe_catch_def)

lemma guard_readdir_fails:
  "flt Stat p = None \<Longrightarrow> node_at f p = Inr DirNode \<Longrightarrow> flt Readdir p = Some err \<Longrightarrow>
   target_guard flt f p = (if code err = ''ENOENT'' then Proceed else ProbeError (message err))"
  by (simp add: target_guard_def fs_stat_def fs_readdir_def probe_catch_def)

section \<open>The backtracking matcher\<close>

text \<open>
  How the matcher runs through a literal, through a repetition inside a group and through
  an optional part, and how the search finds the leftmost match.
\<close>

lemma fullRepoRegex_unfold:
  "fullRepoRegex =
     Seq (Lit ''github.com/'')
       (Seq (Group 1 (Plus Lazy dot_char))
          (Seq (Lit ''/'') (Seq (Group 2 (Plus Lazy dot_char)) gitTail)))"
  by (simp add: fullRepoRegex_def gitTail_def branchTail_def)

lemma seq_Lit_hit: "rx_match (Seq (Lit w) K) (i, w @ s, c) = rx_match K (i + length w, s, c)"
  by (simp add: starts_with_def)

lemma seq_Lit_miss: "\<not> starts_with s w \<Longrightarrow> rx_match (Seq (Lit w) K) (i, s, c) = []"
  by simp

lemma seq_Lit_miss_hd: "s \<noteq> [] \<Longrightarrow> hd s \<noteq> ch \<Longrightarrow> rx_match (Seq (Lit (ch # w)) K) (i, s, c) = []"
  by (cases s) (simp_all add: starts_with_def)

lemma concat_map_nil: "(\<And>x. x \<in> set xs \<Longrightarrow> f x = []) \<Longrightarrow> concat (map f xs) = []"
  by (induction xs) simp_all

lemma group_plus_seq:
  "rx_match (Seq (Group g (Plus q P)) K) (i, s, c) =
     concat (map (\<lambda>k. rx_match K (i + k, drop k s, c(g \<mapsto> take k s)))
       (case q of Greedy \<Rightarrow> rev [1 ..< Suc (length (takeWhile P s))]
                | Lazy \<Rightarrow> [1 ..< Suc (length (takeWhile P s))]))"
  by (simp add: Let_def comp_def split: quant.splits)

lemma greedy_unique:
  assumes "1 \<le> n" and "n = length (takeWhile P s)"
    and "\<And>k. 1 \<le> k \<Longrightarrow> k < n \<Longrightarrow> rx_match K (i + k, drop k s, c(g \<mapsto> take k s)) = []"
  shows "rx_match (Seq (Group g (Plus Greedy P)) K) (i, s, c) =
           rx_match K (i + n, drop n s, c(g \<mapsto> take n s))"
proof -
  let ?f = "\<lambda>k. rx_match K (i + k, drop k s, c(g \<mapsto> take k s))"
  from assms(1) have "[1 ..< Suc n] = [1 ..< n] @ [n]" by simp
  then have r: "rev [1 ..< Suc n] = n # rev [1 ..< n]" by simp
  have "concat (map ?f (rev [1 ..< n])) = []"
    by (rule concat_map_nil) (simp add: assms(3))
  then show ?thesis
    by (simp only: group_plus_seq quant.case assms(2) [symmetric] r) simp
qed

lemma lazy_first:
  assumes "1 \<le> m" and "m \<le> length (takeWhile P s)"
    and "\<And>k. 1 \<le> k \<Longrightarrow> k < m \<Longrightarrow> rx_match K (i + k, drop k s, c(g \<mapsto> take k s)) = []"
  shows "\<exists>ms. rx_match (Seq (Group g (Plus Lazy P)) K) (i, s, c) =
           rx_match K (i + m, drop m s, c(g \<mapsto> take m s)) @ ms"
proof -
  let ?f = "\<lambda>k. rx_match K (i + k, drop k s, c(g \<mapsto> take k s))"
  let ?n = "length (takeWhile P s)"
  have "[1 ..< Suc ?n] = [1 ..< m] @ [m ..< Suc ?n]"
    using upt_add_eq_append [of 1 m "Suc ?n - m"] assms(1,2) by simp
  moreover have "[m ..< Suc ?n] = m # [Suc m ..< Suc ?n]"
    using assms(2) by (simp add: upt_conv_Cons)
  ultimately have "[1 ..< Suc ?n] = [1 ..< m] @ m # [Suc m ..< Suc ?n]"
    by simp
  moreover have "concat (map ?f [1 ..< m]) = []"
    by (rule concat_map_nil) (simp add: assms(3))
  ultimately have "rx_match (Seq (Group g (Plus Lazy P)) K) (i, s, c) =
      ?f m @ concat (map ?f [Suc m ..< Suc ?n])"
    by (simp only: group_plus_seq quant.case) simp
  then show ?thesis by blast
qed

lemma rx_search_hit:
  "rx_match r (i, s, Map.empty) = (j, t, c) # ms \<Longrightarrow> rx_search r i s = Some c"
  by (cases s) simp_all

lemma rx_search_at:
  assumes "n \<le> length s"
    and "\<And>k. k < n \<Longrightarrow> rx_match r (i + k, drop k s, Map.empty) = []"
    and "rx_match r (i + n, drop n s, Map.empty) = (j, t, c) # ms"
  shows "rx_search r i s = Some c"
  using assms
proof (induction n arbitrary: i s)
  case 0
  then show ?case by (simp add: rx_search_hit)
next
  case (Suc n)
  then obtain x xs where s: "s = x # xs" by (cases s) auto
  from Suc.prems(2) [of 0] have "rx_match r (i, x # xs, Map.empty) = []" by (simp add: s)
  then have "rx_search r i s = rx_search r (Suc i) xs" by (simp add: s)
  moreover have "rx_search r (Suc i) xs = Some c"
  proof (rule Suc.IH)
    show "n \<le> length xs" using Suc.prems(1) by (simp add: s)
    show "rx_match r (Suc i + k, drop k xs, Map.empty) = []" if "k < n" for k
      using Suc.prems(2) [of "Suc k"] that by (simp add: s)
    show "rx_match r (Suc i + n, drop n xs, Map.empty) = (j, t, c) # ms"
      using Suc.prems(3) by (simp add: s)
  qed
  ultimately show ?case by simp
qed

lemma rx_search_found:
  assumes "n \<le> length s" and "rx_match r (i + n, drop n s, Map.empty) \<noteq> []"
  shows "rx_search r i s \<noteq> None"
  using assms
proof (induction n arbitrary: i s)
  case 0
  then show ?case by (cases s) (auto split: list.splits)
next
  case (Suc n)
  then obtain x xs where s: "s = x # xs" by (cases s) auto
  have "rx_search r (Suc i) xs \<noteq> None"
    using Suc.IH [of xs "Suc i"] Suc.prems by (simp add: s)
  then show ?case by (auto simp: s split: list.splits)
qed

lemma seq_Opt: "rx_match (Seq (Opt a) K) st = rx_match (Seq a K) st @ rx_match K st"
  by simp


subsection \<open>A greedy repetition followed by a literal or by the end\<close>


lemma greedy_then_eol:
  assumes "sf \<noteq> []" and "\<forall>x\<in>set sf. P x"
  shows "rx_match (Seq (Group g (Plus Greedy P)) Eol) (i, sf, c) = [(i + length sf, [], c(g \<mapsto> sf))]"
proof -
  have t: "takeWhile P sf = sf"
    using assms(2) by (simp add: takeWhile_eq_all_conv)
  have "rx_match (Seq (Group g (Plus Greedy P)) Eol) (i, sf, c) =
          rx_match Eol (i + length sf, drop (length sf) sf, c(g \<mapsto> take (length sf) sf))"
  proof (rule greedy_unique)
    show "1 \<le> length sf" using assms(1) by (cases sf) simp_all
    show "length sf = length (takeWhile P sf)" by (simp only: t)
    fix k assume "1 \<le> k" "k < length sf"
    then show "rx_match Eol (i + k, drop k sf, c(g \<mapsto> take k sf)) = []" by simp
  qed
  then show ?thesis by simp
qed

subsection \<open>The tree-URL pattern\<close>





subsection \<open>The tails: an optional .git and an optional branch\<close>

lemma concat_map_concat:
  "concat (map f (concat (map g xs))) = concat (map (\<lambda>x. concat (map f (g x))) xs)"
  by (induction xs) simp_all

lemma seq_assoc: "rx_match (Seq (Seq a b) K) st = rx_match (Seq a (Seq b K)) st"
proof -
  have "rx_match (Seq b K) = (\<lambda>x. concat (map (rx_match K) (rx_match b x)))"
    by (rule ext) simp
  then show ?thesis by (simp add: concat_map_concat)
qed

lemma bt_unfold:
  "rx_match branchTail st =
     rx_match (Seq (Lit ''#'') (Seq (Group 3 (Plus Greedy dot_char)) Eol)) st @ rx_match Eol st"
  unfolding branchTail_def seq_Opt seq_assoc ..

lemma bt_nil: "rx_match branchTail (j, [], c) = [(j, [], c)]"
  unfolding bt_unfold by (simp add: starts_with_def)

lemma bt_branch:
  assumes "plain b"
  shows "rx_match branchTail (j, CHR ''#'' # b, c) = [(Suc j + length b, [], c(3 \<mapsto> b))]"
proof -
  from assms have b: "b \<noteq> []" "\<forall>x\<in>set b. dot_char x"
    by (simp_all add: plain_def list_all_iff)
  have "rx_match (Seq (Lit ''#'') (Seq (Group 3 (Plus Greedy dot_char)) Eol)) (j, ''#'' @ b, c) =
          rx_match (Seq (Group 3 (Plus Greedy dot_char)) Eol) (j + length ''#'', b, c)"
    by (rule seq_Lit_hit)
  then show ?thesis
    unfolding bt_unfold by (simp add: greedy_then_eol [OF b] del: rx_match.simps) simp
qed

lemma bt_other:
  assumes "u \<noteq> []" and "hd u \<noteq> CHR ''#''"
  shows "rx_match branchTail (j, u, c) = []"
  unfolding bt_unfold using assms seq_Lit_miss_hd [of u "CHR ''#''" "[]"]
  by (simp del: rx_match.simps) simp

lemma gt_unfold:
  "rx_match gitTail st = rx_match (Seq (Lit ''.git'') branchTail) st @ rx_match branchTail st"
  unfolding gitTail_def seq_Opt ..

lemma bt_suffix:
  assumes "\<forall>b. br = Some b \<longrightarrow> plain b"
  shows "rx_match branchTail (j, repo_suffix False br, c) =
           [(j + length (repo_suffix False br), [], with_branch c br)]"
proof (cases br)
  case None
  then show ?thesis by (simp add: repo_suffix_def with_branch_def bt_nil)
next
  case (Some b)
  with assms have "plain b" by simp
  from bt_branch [OF this] Some show ?thesis by (simp add: repo_suffix_def with_branch_def)
qed

lemma gt_suffix:
  assumes "\<forall>b. br = Some b \<longrightarrow> plain b"
  shows "rx_match gitTail (j, repo_suffix git br, c) =
           [(j + length (repo_suffix git br), [], with_branch c br)]"
proof (cases git)
  case False
  have m: "rx_match (Seq (Lit ''.git'') branchTail) (j, repo_suffix False br, c) = []"
    by (cases br) (simp_all add: repo_suffix_def starts_with_def)
  show ?thesis
    using False bt_suffix [OF assms] by (simp only: gt_unfold m) simp
next
  case True
  have s: "repo_suffix True br = ''.git'' @ repo_suffix False br"
    by (simp add: repo_suffix_def)
  have h: "rx_match (Seq (Lit ''.git'') branchTail) (j, ''.git'' @ repo_suffix False br, c) =
             rx_match branchTail (j + length ''.git'', repo_suffix False br, c)"
    by (rule seq_Lit_hit)
  have o: "rx_match branchTail (j, ''.git'' @ repo_suffix False br, c) = []"
    by (rule bt_other) simp_all
  show ?thesis
    using True by (simp only: gt_unfold s h o bt_suffix [OF assms]) simp
qed

lemma gt_miss:
  assumes "u \<noteq> []" and "hd u \<noteq> CHR ''#''"
    and "\<And>v. u = ''.git'' @ v \<Longrightarrow> v \<noteq> [] \<and> hd v \<noteq> CHR ''#''"
  shows "rx_match gitTail (j, u, c) = []"
proof -
  have "rx_match (Seq (Lit ''.git'') branchTail) (j, u, c) = []"
  proof (cases "starts_with u ''.git''")
    case False
    then show ?thesis by (rule seq_Lit_miss)
  next
    case True
    define n where "n = length ''.git''"
    from True have "take n u = ''.git''" by (simp only: starts_with_def n_def)
    moreover have "u = take n u @ drop n u" by simp
    ultimately have u: "u = ''.git'' @ drop n u" by simp
    from assms(3) [OF u] have "drop n u \<noteq> []" "hd (drop n u) \<noteq> CHR ''#''" by simp_all
    then have "rx_match branchTail (j + length ''.git'', drop n u, c) = []"
      by (rule bt_other)
    moreover have "rx_match (Seq (Lit ''.git'') branchTail) (j, ''.git'' @ drop n u, c) =
                    rx_match branchTail (j + length ''.git'', drop n u, c)"
      by (rule seq_Lit_hit)
    ultimately have e: "rx_match (Seq (Lit ''.git'') branchTail) (j, ''.git'' @ drop n u, c) = []"
      by (simp only:)
    show ?thesis by (subst u) (rule e)
  qed
  with bt_other [OF assms(1,2)] show ?thesis by (simp only: gt_unfold) simp
qed

lemma git_stemI: "r1 \<noteq> [] \<Longrightarrow> git_stem (r1 @ ''.git'')"
  by (simp add: git_stem_def)

lemma suffix_hd: "repo_suffix git br \<noteq> [] \<Longrightarrow> hd (repo_suffix git br) \<in> {CHR ''.'', CHR ''#''}"
  by (cases br; cases git) (simp_all add: repo_suffix_def)

lemma repo_tail_miss:
  assumes x: "x \<noteq> []" "CHR ''#'' \<notin> set x" and k: "pre \<noteq> []"
    and stem: "\<not> git \<longrightarrow> \<not> git_stem (pre @ x)"
    and eq: "x @ repo_suffix git br = ''.git'' @ v"
  shows "v \<noteq> [] \<and> hd v \<noteq> CHR ''#''"
proof -
  from eq obtain w where
    "(x = ''.git'' @ w \<and> w @ repo_suffix git br = v) \<or> (x @ w = ''.git'' \<and> repo_suffix git br = w @ v)"
    by (auto simp only: append_eq_append_conv2)
  then consider (long) w where "x = ''.git'' @ w" "v = w @ repo_suffix git br" "w \<noteq> []"
    | (exact) "x = ''.git''" "v = repo_suffix git br"
    | (short) w where "x @ w = ''.git''" "repo_suffix git br = w @ v" "w \<noteq> []"
    by (cases "w = []") auto
  then show ?thesis
  proof cases
    case long
    from long(3) have "hd w \<in> set w" by (rule hd_in_set)
    with long(1) have "hd w \<in> set x" by simp
    moreover from long(2,3) have "hd v = hd w" by simp
    ultimately show ?thesis using x(2) long(2,3) by auto
  next
    case exact
    show ?thesis
    proof (cases git)
      case True
      with exact show ?thesis by (cases br) (simp_all add: repo_suffix_def)
    next
      case False
      with stem have "\<not> git_stem (pre @ ''.git'')" using exact by simp
      with git_stemI [OF k] show ?thesis by simp
    qed
  next
    case short
    from short(1) x(1) obtain x' where "x = CHR ''.'' # x'" and "x' @ w = ''git''"
      by (cases x) auto
    then have "set (x' @ w) = set ''git''" by simp
    then have "set w \<subseteq> set ''git''" by (simp only: set_append) blast
    moreover from short(3) have "hd w \<in> set w" by (rule hd_in_set)
    ultimately have "hd w \<in> set ''git''" by blast
    moreover from short(2,3) have "repo_suffix git br \<noteq> []" and "hd (repo_suffix git br) = hd w"
      by auto
    ultimately show ?thesis using suffix_hd [of git br] by auto
  qed
qed

subsection \<open>The generic pattern\<close>

lemma takeWhile_covers: "\<forall>x\<in>set xs. P x \<Longrightarrow> length xs \<le> length (takeWhile P (xs @ ys))"
  by (simp add: takeWhile_append2)

lemma repo_then_tail:
  assumes r: "plain rp" "CHR ''#'' \<notin> set rp" and stem: "\<not> git \<longrightarrow> \<not> git_stem rp"
    and br: "\<forall>b. br = Some b \<longrightarrow> plain b"
  shows "\<exists>ms. rx_match (Seq (Group 2 (Plus Lazy dot_char)) gitTail) (j, rp @ repo_suffix git br, c) =
           (j + length (rp @ repo_suffix git br), [], with_branch (c(2 \<mapsto> rp)) br) # ms"
proof -
  let ?s = "rp @ repo_suffix git br"
  from r(1) have ne: "rp \<noteq> []" and dots: "\<forall>x\<in>set rp. dot_char x"
    by (simp_all add: plain_def list_all_iff)
  have "\<exists>ms. rx_match (Seq (Group 2 (Plus Lazy dot_char)) gitTail) (j, ?s, c) =
          rx_match gitTail (j + length rp, drop (length rp) ?s, c(2 \<mapsto> take (length rp) ?s)) @ ms"
  proof (rule lazy_first)
    show "1 \<le> length rp" using ne by (cases rp) simp_all
    show "length rp \<le> length (takeWhile dot_char ?s)" using dots by (rule takeWhile_covers)
    fix k assume k: "1 \<le> k" "k < length rp"
    let ?x = "drop k rp"
    have x: "?x \<noteq> []" "CHR ''#'' \<notin> set ?x"
      using k r(2) by (auto dest: in_set_dropD)
    have p: "take k rp \<noteq> []" using k ne by (cases rp) auto
    have d: "drop k ?s = ?x @ repo_suffix git br" using k by simp
    have "rx_match gitTail (j + k, ?x @ repo_suffix git br, c(2 \<mapsto> take k ?s)) = []"
    proof (rule gt_miss)
      show "?x @ repo_suffix git br \<noteq> []" using x(1) by simp
      from x(1) have h: "hd ?x \<in> set ?x" by (rule hd_in_set)
      show "hd (?x @ repo_suffix git br) \<noteq> CHR ''#''"
      proof
        assume "hd (?x @ repo_suffix git br) = CHR ''#''"
        with x(1) have "hd ?x = CHR ''#''" by simp
        with h have "CHR ''#'' \<in> set ?x" by (simp only:)
        with x(2) show False by blast
      qed
      fix v assume e: "?x @ repo_suffix git br = ''.git'' @ v"
      have st: "\<not> git \<longrightarrow> \<not> git_stem (take k rp @ ?x)" using stem by simp
      show "v \<noteq> [] \<and> hd v \<noteq> CHR ''#''"
        by (rule repo_tail_miss [OF x p st e])
    qed
    then show "rx_match gitTail (j + k, drop k ?s, c(2 \<mapsto> take k ?s)) = []"
      by (simp only: d)
  qed
  then obtain ms where "rx_match (Seq (Group 2 (Plus Lazy dot_char)) gitTail) (j, ?s, c) =
      rx_match gitTail (j + length rp, repo_suffix git br, c(2 \<mapsto> rp)) @ ms"
    by (auto simp del: rx_match.simps)
  then show ?thesis
    by (simp add: gt_suffix [OF br] del: rx_match.simps)
qed

lemma generic_match:
  assumes o: "plain ow" "CHR ''/'' \<notin> set ow"
    and r: "plain rp" "CHR ''#'' \<notin> set rp" and stem: "\<not> git \<longrightarrow> \<not> git_stem rp"
    and br: "\<forall>b. br = Some b \<longrightarrow> plain b"
  shows "\<exists>j ms. rx_match fullRepoRegex
           (i, ''github.com/'' @ ow @ ''/'' @ rp @ repo_suffix git br, Map.empty) =
           (j, [], with_branch [1 \<mapsto> ow, 2 \<mapsto> rp] br) # ms"
proof -
  let ?t = "ow @ ''/'' @ rp @ repo_suffix git br"
  let ?K = "Seq (Lit ''/'') (Seq (Group 2 (Plus Lazy dot_char)) gitTail)"
  from o(1) have ne: "ow \<noteq> []" and dots: "\<forall>x\<in>set ow. dot_char x"
    by (simp_all add: plain_def list_all_iff)
  have a: "rx_match fullRepoRegex (i, ''github.com/'' @ ?t, Map.empty) =
             rx_match (Seq (Group 1 (Plus Lazy dot_char)) ?K) (i + length ''github.com/'', ?t, Map.empty)"
    unfolding fullRepoRegex_unfold by (rule seq_Lit_hit)
  have "\<exists>ms. rx_match (Seq (Group 1 (Plus Lazy dot_char)) ?K) (i + length ''github.com/'', ?t, Map.empty) =
          rx_match ?K (i + length ''github.com/'' + length ow, drop (length ow) ?t,
                       Map.empty(1 \<mapsto> take (length ow) ?t)) @ ms"
  proof (rule lazy_first)
    show "1 \<le> length ow" using ne by (cases ow) simp_all
    show "length ow \<le> length (takeWhile dot_char ?t)" using dots by (rule takeWhile_covers)
    fix k assume k: "1 \<le> k" "k < length ow"
    have d: "drop k ?t = drop k ow @ ''/'' @ rp @ repo_suffix git br" using k by simp
    have n: "drop k ow \<noteq> []" using k by simp
    then have "hd (drop k ow) \<in> set (drop k ow)" by (rule hd_in_set)
    then have "hd (drop k ow) \<in> set ow" by (rule in_set_dropD)
    with o(2) n have "hd (drop k ?t) \<noteq> CHR ''/''" unfolding d by auto
    moreover have "drop k ?t \<noteq> []" unfolding d using n by simp
    ultimately show "rx_match ?K (i + length ''github.com/'' + k, drop k ?t,
                       Map.empty(1 \<mapsto> take k ?t)) = []"
      by (rule seq_Lit_miss_hd [rotated])
  qed
  then obtain ms1 where b: "rx_match (Seq (Group 1 (Plus Lazy dot_char)) ?K)
        (i + length ''github.com/'', ?t, Map.empty) =
      rx_match ?K (i + length ''github.com/'' + length ow, ''/'' @ rp @ repo_suffix git br,
                   [1 \<mapsto> ow]) @ ms1"
    by (auto simp del: rx_match.simps)
  have c: "rx_match ?K (i + length ''github.com/'' + length ow, ''/'' @ rp @ repo_suffix git br,
                   [1 \<mapsto> ow]) =
           rx_match (Seq (Group 2 (Plus Lazy dot_char)) gitTail)
             (i + length ''github.com/'' + length ow + length ''/'', rp @ repo_suffix git br, [1 \<mapsto> ow])"
    by (rule seq_Lit_hit)
  from repo_then_tail [OF r stem br] obtain ms2 where
    d: "rx_match (Seq (Group 2 (Plus Lazy dot_char)) gitTail)
          (i + length ''github.com/'' + length ow + length ''/'', rp @ repo_suffix git br, [1 \<mapsto> ow]) =
        (i + length ''github.com/'' + length ow + length ''/'' + length (rp @ repo_suffix git br), [],
         with_branch [1 \<mapsto> ow, 2 \<mapsto> rp] br) # ms2"
    by blast
  have "rx_match fullRepoRegex (i, ''github.com/'' @ ?t, Map.empty) =
          ((i + length ''github.com/'' + length ow + length ''/'' + length (rp @ repo_suffix git br), [],
            with_branch [1 \<mapsto> ow, 2 \<mapsto> rp] br) # ms2) @ ms1"
    by (simp only: a b c d)
  then have "rx_match fullRepoRegex (i, ''github.com/'' @ ?t, Map.empty) =
          (i + length ''github.com/'' + length ow + length ''/'' + length (rp @ repo_suffix git br), [],
            with_branch [1 \<mapsto> ow, 2 \<mapsto> rp] br) # (ms2 @ ms1)"
    by (simp only: append_Cons)
  then show ?thesis by (intro exI)
qed

lemma find_sub_before:
  "find_sub w s = Some n \<Longrightarrow> k < n \<Longrightarrow> \<not> starts_with (drop k s) w"
proof (induction s arbitrary: n k)
  case Nil
  then show ?case by (simp split: if_splits)
next
  case (Cons x xs)
  from Cons.prems have ns: "\<not> starts_with (x # xs) w"
    by (auto split: if_splits)
  with Cons.prems obtain m where m: "find_sub w xs = Some m" "n = Suc m"
    by (auto split: if_splits)
  show ?case
  proof (cases k)
    case 0
    with ns show ?thesis by simp
  next
    case (Suc k')
    with Cons.prems(2) m have "k' < m" by simp
    from Cons.IH [OF m(1) this] Suc show ?thesis by simp
  qed
qed

lemma generic_search:
  assumes o: "plain ow" "CHR ''/'' \<notin> set ow"
    and r: "plain rp" "CHR ''#'' \<notin> set rp" and stem: "\<not> git \<longrightarrow> \<not> git_stem rp"
    and br: "\<forall>b. br = Some b \<longrightarrow> plain b"
    and first: "find_sub ''github.com/'' (pre @ ''github.com/'' @ ow @ ''/'' @ rp @ repo_suffix git br)
                  = Some (length pre)"
  shows "js_match (pre @ ''github.com/'' @ ow @ ''/'' @ rp @ repo_suffix git br) fullRepoRegex =
           Some (with_branch [1 \<mapsto> ow, 2 \<mapsto> rp] br)"
proof -
  let ?input = "pre @ ''github.com/'' @ ow @ ''/'' @ rp @ repo_suffix git br"
  from generic_match [OF o r stem br, of "0 + length pre"] obtain j ms where
    m: "rx_match fullRepoRegex (0 + length pre, drop (length pre) ?input, Map.empty) =
          (j, [], with_branch [1 \<mapsto> ow, 2 \<mapsto> rp] br) # ms"
    by auto
  show ?thesis
    unfolding js_match_def
  proof (rule rx_search_at [OF _ _ m])
    show "length pre \<le> length ?input" by simp
    fix k assume "k < length pre"
    with first have "\<not> starts_with (drop k ?input) ''github.com/''"
      by (rule find_sub_before)
    then show "rx_match fullRepoRegex (0 + k, drop k ?input, Map.empty) = []"
      unfolding fullRepoRegex_unfold by (rule seq_Lit_miss)
  qed
qed

lemma generic_accepts:
  assumes o: "plain ow" "CHR ''/'' \<notin> set ow"
    and r: "plain rp" "CHR ''#'' \<notin> set rp" and stem: "\<not> git \<longrightarrow> \<not> git_stem rp"
    and br: "\<forall>b. br = Some b \<longrightarrow> plain b"
  shows "js_match (pre @ ''github.com/'' @ ow @ ''/'' @ rp @ repo_suffix git br) fullRepoRegex \<noteq> None"
proof -
  let ?input = "pre @ ''github.com/'' @ ow @ ''/'' @ rp @ repo_suffix git br"
  from generic_match [OF o r stem br, of "0 + length pre"] have
    "rx_match fullRepoRegex (0 + length pre, drop (length pre) ?input, Map.empty) \<noteq> []"
    by auto
  then show ?thesis
    unfolding js_match_def by (rule rx_search_found [rotated]) simp
qed

lemma parse_accepts:
  "js_match input fullRepoRegex \<noteq> None \<Longrightarrow> \<exists>ref. parseGitHubUrl input = Inr ref"
  by (auto simp: parseGitHubUrl_def split: option.splits)

lemma parse_generic:
  "js_match input treeUrlRegex = None \<Longrightarrow> js_match input shorthandRegex = None \<Longrightarrow>
   js_match input fullRepoRegex = Some m \<Longrightarrow>
   parseGitHubUrl input = Inr \<lparr>owner = m 1, repo = m 2, branch = m 3, subfolder = None\<rparr>"
  by (simp add: parseGitHubUrl_def)

lemma with_branch_apply:
  "with_branch [1 \<mapsto> ow, 2 \<mapsto> rp] br 1 = Some ow"
  "with_branch [1 \<mapsto> ow, 2 \<mapsto> rp] br 2 = Some rp"
  "with_branch [1 \<mapsto> ow, 2 \<mapsto> rp] br 3 = br"
  by (cases br; simp add: with_branch_def)+

subsection \<open>The shorthand pattern\<close>











subsection \<open>Results of the parser\<close>

lemma generic_parse:
  assumes o: "plain ow" "CHR ''/'' \<notin> set ow"
    and r: "plain rp" "CHR ''#'' \<notin> set rp" and stem: "\<not> git \<longrightarrow> \<not> git_stem rp"
    and br: "\<forall>b. br = Some b \<longrightarrow> plain b"
    and input: "input = pre @ ''github.com/'' @ ow @ ''/'' @ rp @ repo_suffix git br"
    and earlier: "js_match input treeUrlRegex = None" "js_match input shorthandRegex = None"
    and first: "find_sub ''github.com/'' input = Some (length pre)"
  shows "parseGitHubUrl input =
           Inr \<lparr>owner = Some ow, repo = Some rp, branch = br, subfolder = None\<rparr>"
proof -
  have "js_match input fullRepoRegex = Some (with_branch [1 \<mapsto> ow, 2 \<mapsto> rp] br)"
    unfolding input by (rule generic_search [OF o r stem br first [unfolded input]])
  from parse_generic [OF earlier this] show ?thesis
    by (simp only: with_branch_apply)
qed

lemma groups_None: "groups input r = None \<longleftrightarrow> js_match input r = None"
  by (simp add: groups_def)


section \<open>Which entries are extracted\<close>



section \<open>Nothing matched\<close>

text \<open>
  Claim C2. When the extraction loop has run through an archive whose stream ended
  normally and no entry was in scope, the run ends as a failure: the spinner's last word
  is that the subfolder was not found in the repo and the exit code is 1, although the
  archive was downloaded and no entry failed. The temporary directory is removed; the
  counters are as the loop found them.
\<close>

theorem nothing_matched_fails:
  assumes "extraction_starts E repoUrl sub target st0 ref finalBranch ar f2"
    and "stream_error ar = None"
    and "\<forall>e\<in>set (entries ar). \<not> in_scope (prefix_of ref finalBranch) (strip_trailing_slash sub) e"
  shows "downloadFolder E repoUrl sub target st0 =
           st0\<lparr>files := fs_remove (fault E) (tempDir_of E) f2,
               spinner := spinner st0 @
                 [Start ''Preparing download...'', fetching_text ref,
                  Fail (''Subfolder \"'' @ sub @ ''\" not found in repo.'')],
               exitCode := 1, filesExtracted := 0, matchedSomething := False, stalled := False\<rparr>"
  by (simp add: downloadFolder_extracts [OF assms(1)] extract_all_skip [OF assms(3)] assms(2)
        conclude_def loop_start_def tell_def not_found_def Let_def)

text \<open>The example archive has nothing under \<open>docs\<close>.\<close>

theorem nothing_matched_fails_witness:
  "downloadFolder (env_for no_faults ex_archive) ''owner/repo#branch'' ''docs'' (Some ''output'')
       ex_state =
     \<lparr>files = [(''/work/output'', DirNode), (''/work'', DirNode), (''/tmp'', DirNode)],
      spinner = [Start ''Preparing download...'', Text ''Fetching ZIP from branch'',
                 Fail ''Subfolder \"docs\" not found in repo.''],
      exitCode = 1, filesExtracted = 0, matchedSomething = False, stalled = False\<rparr>"
proof -
  let ?E = "env_for no_faults ex_archive"
  have s: "stream_error ex_archive = None"
    by (simp add: ex_archive_def)
  have n: "\<forall>e\<in>set (entries ex_archive).
             \<not> in_scope (prefix_of ex_ref (Some ''branch'')) (strip_trailing_slash ''docs'') e"
    by code_simp
  have r: "fs_remove no_faults (tempDir_of ?E) ex_loop_files =
             [(''/work/output'', DirNode), (''/work'', DirNode), (''/tmp'', DirNode)]"
    by code_simp
  have t: "fetching_text ex_ref = Text ''Fetching ZIP from branch''"
    by code_simp
  show ?thesis
    using nothing_matched_fails [OF ex_extraction_starts s n]
    by (simp add: r t ex_state_def)
qed

section \<open>A failed entry and the rest of the archive\<close>

text \<open>
  Claim C3 says that the failure of one in-scope entry is caught and recorded and that
  the remaining entries are attempted all the same, the count being that of the
  successful writes. The loop does catch the failure and warns, and so means to go on;
  but the failed entry is left unread, and unlike an entry out of scope it is not
  drained, so the stream yields a next entry only when the content fits its buffers.

  The archive holds \<open>keep/a.txt\<close>, \<open>keep/b.txt\<close> with twenty characters and
  \<open>keep/c.txt\<close>; the stream buffers sixteen characters and the write to \<open>b.txt\<close> is
  refused. The run writes and counts \<open>a.txt\<close>, warns about \<open>b.txt\<close>, and stops there
  for ever: \<open>c.txt\<close> is never attempted, no closing message is given and the run does
  not return. With a \<open>b.txt\<close> of one character the same run goes on to \<open>c.txt\<close> and
  ends with two files counted.
\<close>

theorem failed_entry_stalls:
  "downloadFolder (env_for deny_b three_files_big) ''owner/repo#branch'' ''keep'' (Some ''output'')
       ex_state =
     \<lparr>files = [(''/work/output/a.txt'', FileNode ''A''), (''/work/output'', DirNode),
               (''/tmp/gh-folder-1700'', DirNode), (''/work'', DirNode), (''/tmp'', DirNode)],
      spinner = [Start ''Preparing download...'', Text ''Fetching ZIP from branch'',
                 Text ''Extracted 1 files...'',
                 Warn ''Failed to extract repo-branch/keep/b.txt: EACCES: permission denied''],
      exitCode = 0, filesExtracted = 1, matchedSomething = True, stalled = True\<rparr> \<and>
   downloadFolder (env_for deny_b three_files) ''owner/repo#branch'' ''keep'' (Some ''output'')
       ex_state =
     \<lparr>files = [(''/work/output/c.txt'', FileNode ''C''), (''/work/output/a.txt'', FileNode ''A''),
               (''/work/output'', DirNode), (''/tmp/gh-folder-1700'', DirNode),
               (''/work'', DirNode), (''/tmp'', DirNode)],
      spinner = [Start ''Preparing download...'', Text ''Fetching ZIP from branch'',
                 Text ''Extracted 1 files...'',
                 Warn ''Failed to extract repo-branch/keep/b.txt: EACCES: permission denied'',
                 Text ''Extracted 2 files...'',
                 Succeed ''Successfully downloaded keep to /work/output (2 files)''],
      exitCode = 0, filesExtracted = 2, matchedSomething = True, stalled = False\<rparr>"
  by code_simp

section \<open>Where an entry in scope is written\<close>

text \<open>
  Claim C4, as the specification states it, fails on the code: an entry whose
  repo-relative path equals the subfolder itself is not written to the output directory
  but to the output directory joined with the subfolder, because the path holds no
  \<open>subfolder + "/"\<close> that could be removed. Here the entry \<open>repo-branch/keep\<close> with
  subfolder \<open>keep\<close> and output directory \<open>/work/output\<close> goes to
  \<open>/work/output/keep\<close>.
\<close>

theorem subfolder_itself_counterexample:
  "in_scope ''repo-branch/'' ''keep'' \<lparr>path = ''repo-branch/keep'', type = File, content = ''K''\<rparr> \<and>
   relativePath ''repo-branch/'' \<lparr>path = ''repo-branch/keep'', type = File, content = ''K''\<rparr>
     = ''keep'' \<and>
   localPath ''/work/output'' ''repo-branch/'' ''keep''
     \<lparr>path = ''repo-branch/keep'', type = File, content = ''K''\<rparr> = ''/work/output/keep'' \<and>
   localPath ''/work/output'' ''repo-branch/'' ''keep''
     \<lparr>path = ''repo-branch/keep'', type = File, content = ''K''\<rparr> \<noteq> ''/work/output'' \<and>
   files (downloadFolder (env_for no_faults single_archive) ''owner/repo#branch'' ''keep''
            (Some ''output'') ex_state) =
     [(''/work/output/keep'', FileNode ''K''), (''/work/output'', DirNode),
      (''/tmp/gh-folder-1700'', DirNode), (''/work'', DirNode), (''/tmp'', DirNode)]"
  by code_simp

text \<open>
  Claim C4, amended. The destination of an entry in scope is the output directory joined
  with the repo-relative path from which the first \<open>subfolder + "/"\<close> has been
  removed. A repo-relative path \<open>subfolder/rest\<close> goes to the output directory joined
  with \<open>rest\<close>; the path \<open>subfolder/\<close>, the subfolder's own directory entry, goes to
  the output directory itself; a path equal to the subfolder, without the slash, goes to
  the output directory joined with the subfolder. An entry in scope has one of these forms.
\<close>

theorem destination_rerooted:
  "(relativePath prefix e = nsub @ ''/'' @ r \<longrightarrow>
      in_scope prefix nsub e \<and> localPath out prefix nsub e = posix_join out r) \<and>
   (relativePath prefix e = nsub \<longrightarrow>
      in_scope prefix nsub e \<and> localPath out prefix nsub e = posix_join out nsub) \<and>
   (in_scope prefix nsub e \<longrightarrow>
      relativePath prefix e = nsub \<or> (\<exists>r. relativePath prefix e = nsub @ ''/'' @ r)) \<and>
   (is_absolute (cwd E) \<and> relativePath prefix e = nsub @ ''/'' \<longrightarrow>
      localPath (outputDir_of E sub target) prefix nsub e = outputDir_of E sub target)"
proof (intro conjI impI)
  assume "relativePath prefix e = nsub @ ''/'' @ r"
  then show "in_scope prefix nsub e"
    by (simp add: in_scope_def starts_with_def)
next
  assume "relativePath prefix e = nsub @ ''/'' @ r"
  then have "replace_first (nsub @ ''/'') [] (relativePath prefix e) = r"
    using replace_first_prefix [of "nsub @ ''/''" "[]" r] by simp
  then show "localPath out prefix nsub e = posix_join out r"
    by (simp add: localPath_def)
next
  assume "relativePath prefix e = nsub"
  then show "in_scope prefix nsub e"
    by (simp add: in_scope_def)
next
  assume "relativePath prefix e = nsub"
  then have "replace_first (nsub @ ''/'') [] (relativePath prefix e) = nsub"
    by (simp add: replace_first_short)
  then show "localPath out prefix nsub e = posix_join out nsub"
    by (simp add: localPath_def)
next
  assume "in_scope prefix nsub e"
  then consider "relativePath prefix e = nsub"
    | "take (length (nsub @ ''/'')) (relativePath prefix e) = nsub @ ''/''"
    by (auto simp: in_scope_def starts_with_def)
  then show "relativePath prefix e = nsub \<or> (\<exists>r. relativePath prefix e = nsub @ ''/'' @ r)"
  proof cases
    case 1
    then show ?thesis by simp
  next
    case 2
    have "relativePath prefix e =
            take (length (nsub @ ''/'')) (relativePath prefix e) @
            drop (length (nsub @ ''/'')) (relativePath prefix e)"
      by simp
    with 2 have "relativePath prefix e = nsub @ ''/'' @ drop (length (nsub @ ''/'')) (relativePath prefix e)"
      by simp
    then show ?thesis by blast
  qed
next
  assume a: "is_absolute (cwd E) \<and> relativePath prefix e = nsub @ ''/''"
  then have "replace_first (nsub @ ''/'') [] (relativePath prefix e) = []"
    using replace_first_prefix [of "nsub @ ''/''" "[]" "[]"] by simp
  with a show "localPath (outputDir_of E sub target) prefix nsub e = outputDir_of E sub target"
    by (simp add: localPath_def join_empty_outputDir)
qed

text \<open>
  The three forms in the example environment: \<open>keep/sub/b.txt\<close>, \<open>keep\<close> and
  \<open>keep/\<close>.
\<close>

theorem destination_rerooted_witness:
  "localPath ''/work/output'' ''repo-branch/'' ''keep''
     \<lparr>path = ''repo-branch/keep/sub/b.txt'', type = File, content = ''B''\<rparr>
     = ''/work/output/sub/b.txt'' \<and>
   localPath ''/work/output'' ''repo-branch/'' ''keep''
     \<lparr>path = ''repo-branch/keep'', type = File, content = ''K''\<rparr> = ''/work/output/keep'' \<and>
   in_scope ''repo-branch/'' ''keep'' \<lparr>path = ''repo-branch/keep/'', type = Directory, content = []\<rparr> \<and>
   localPath (outputDir_of (env_for no_faults ex_archive) ''keep'' (Some ''output''))
     ''repo-branch/'' ''keep'' \<lparr>path = ''repo-branch/keep/'', type = Directory, content = []\<rparr>
     = ''/work/output''"
proof -
  let ?b = "\<lparr>path = ''repo-branch/keep/sub/b.txt'', type = File, content = ''B''\<rparr>"
  let ?k = "\<lparr>path = ''repo-branch/keep'', type = File, content = ''K''\<rparr>"
  let ?d = "\<lparr>path = ''repo-branch/keep/'', type = Directory, content = []\<rparr>"
  let ?E = "env_for no_faults ex_archive"
  have rb: "relativePath ''repo-branch/'' ?b = ''keep'' @ ''/'' @ ''sub/b.txt''" by code_simp
  have rk: "relativePath ''repo-branch/'' ?k = ''keep''" by code_simp
  have rd: "relativePath ''repo-branch/'' ?d = ''keep'' @ ''/'' @ []" by code_simp
  have rd': "relativePath ''repo-branch/'' ?d = ''keep'' @ ''/''" by code_simp
  have ab: "is_absolute (cwd ?E)" by code_simp
  have o: "outputDir_of ?E ''keep'' (Some ''output'') = ''/work/output''" by code_simp
  have j1: "posix_join ''/work/output'' ''sub/b.txt'' = ''/work/output/sub/b.txt''" by code_simp
  have j2: "posix_join ''/work/output'' ''keep'' = ''/work/output/keep''" by code_simp
  have 1: "localPath ''/work/output'' ''repo-branch/'' ''keep'' ?b = ''/work/output/sub/b.txt''"
    using destination_rerooted [of "''repo-branch/''" ?b "''keep''" "''sub/b.txt''" "''/work/output''"]
      rb j1 by simp
  have 2: "localPath ''/work/output'' ''repo-branch/'' ''keep'' ?k = ''/work/output/keep''"
    using destination_rerooted [of "''repo-branch/''" ?k "''keep''" _ "''/work/output''"] rk j2
    by simp
  have 3: "in_scope ''repo-branch/'' ''keep'' ?d"
    using destination_rerooted [of "''repo-branch/''" ?d "''keep''" "[]"] rd by blast
  have 4: "localPath (outputDir_of ?E ''keep'' (Some ''output'')) ''repo-branch/'' ''keep'' ?d =
             outputDir_of ?E ''keep'' (Some ''output'')"
    using destination_rerooted [of "''repo-branch/''" ?d "''keep''" _ _ ?E "''keep''" "Some ''output''"]
      rd' ab by blast
  from 1 2 3 4 show ?thesis by (simp only: o)
qed

section \<open>The check of the target path: its outcomes\<close>

text \<open>
  Claim C5. The probe of the output path has exactly these outcomes. A regular file at the
  path stops the run with the message that the target exists as a file; a directory with
  at least one entry stops it with the message that the directory is not empty; an empty
  directory lets the run proceed; so does a path that is not there (error code
  \<open>ENOENT\<close>, from \<open>stat\<close> or from \<open>readdir\<close>); any other error of \<open>stat\<close> or
  \<open>readdir\<close> stops the run with a message that carries the error's own message.

  What the path names is decided component by component. When all directories on the way
  exist, the path names the node found at its last component. When the first component
  that is not a directory is missing, the path is not there and the run proceeds. When it
  is a regular file with more of the path to come, \<open>stat\<close> fails with \<open>ENOTDIR\<close>, which
  is one of the other errors: the run stops with \<open>Error checking target path\<close>.

  A run that arrives at the check continues with the creation of the directories and the
  extraction when the outcome is to proceed; otherwise the spinner, after the start and
  the fetching text, fails with the message, the exit code is 1 and nothing else changes.
  When the extraction loop starts, the output path is a directory of the file system on
  which the loop works.
\<close>

theorem target_guard_outcomes:
  "(flt Stat p = None \<and> node_at f p = Inr (FileNode c) \<longrightarrow>
      target_guard flt f p = ExistsAsFile) \<and>
   (flt Stat p = None \<and> flt Readdir p = None \<and> node_at f p = Inr DirNode \<and>
    children f p \<noteq> [] \<longrightarrow> target_guard flt f p = NotEmpty) \<and>
   (flt Stat p = None \<and> flt Readdir p = None \<and> node_at f p = Inr DirNode \<and>
    children f p = [] \<longrightarrow> target_guard flt f p = Proceed) \<and>
   (flt Stat p = None \<and> node_at f p = Inl err \<longrightarrow>
      target_guard flt f p =
        (if code err = ''ENOENT'' then Proceed else ProbeError (message err))) \<and>
   (flt Stat p = Some err \<longrightarrow>
      target_guard flt f p =
        (if code err = ''ENOENT'' then Proceed else ProbeError (message err))) \<and>
   (flt Stat p = None \<and> node_at f p = Inr DirNode \<and> flt Readdir p = Some err \<longrightarrow>
      target_guard flt f p =
        (if code err = ''ENOENT'' then Proceed else ProbeError (message err))) \<and>
   (ancestor_chain p = ds @ [d] \<and> (\<forall>y\<in>set ds. fs_lookup f y = Some DirNode) \<and>
    fs_lookup f d = Some n \<longrightarrow> node_at f p = Inr n) \<and>
   (flt Stat p = None \<and> ancestor_chain p = ds @ x # rest \<and>
    (\<forall>y\<in>set ds. fs_lookup f y = Some DirNode) \<and> fs_lookup f x = None \<longrightarrow>
      target_guard flt f p = Proceed) \<and>
   (flt Stat p = None \<and> ancestor_chain p = ds @ x # rest \<and> rest \<noteq> [] \<and>
    (\<forall>y\<in>set ds. fs_lookup f y = Some DirNode) \<and> fs_lookup f x = Some (FileNode c) \<longrightarrow>
      target_guard flt f p = ProbeError (''ENOTDIR: not a directory, '' @ p)) \<and>
   (reaches_guard E repoUrl ref finalBranch ar \<and> p = outputDir_of E sub target \<longrightarrow>
      downloadFolder E repoUrl sub target st0 =
        (case target_guard (fault E) (files st0) p of
           Proceed \<Rightarrow>
             extract_phase E sub p (prefix_of ref finalBranch) ar
               (st0\<lparr>spinner := spinner st0 @
                      [Start ''Preparing download...'', fetching_text ref]\<rparr>)
         | ExistsAsFile \<Rightarrow>
             st0\<lparr>spinner := spinner st0 @
                   [Start ''Preparing download...'', fetching_text ref,
                    Fail (''Target '' @ p @
                          '' exists as a file. Please remove it or choose another name.'')],
                 exitCode := 1\<rparr>
         | NotEmpty \<Rightarrow>
             st0\<lparr>spinner := spinner st0 @
                   [Start ''Preparing download...'', fetching_text ref,
                    Fail (''Directory '' @ p @ '' already exists and is not empty.'')],
                 exitCode := 1\<rparr>
         | ProbeError msg \<Rightarrow>
             st0\<lparr>spinner := spinner st0 @
                   [Start ''Preparing download...'', fetching_text ref,
                    Fail (''Error checking target path: '' @ msg)],
                 exitCode := 1\<rparr>)) \<and>
   (extraction_starts E repoUrl sub target st0 ref finalBranch ar f2 \<and> is_absolute (cwd E) \<longrightarrow>
      node_at f2 (outputDir_of E sub target) = Inr DirNode \<and>
      fs_lookup f2 (outputDir_of E sub target) = Some DirNode \<and>
      downloadFolder E repoUrl sub target st0 =
        (let st2 = extract_all (fault E) (streamBuffer E) (outputDir_of E sub target)
                     (prefix_of ref finalBranch) (strip_trailing_slash sub) (entries ar)
                     (st0\<lparr>spinner := spinner st0 @
                            [Start ''Preparing download...'', fetching_text ref],
                         files := f2, filesExtracted := 0, matchedSomething := False,
                         stalled := False\<rparr>)
         in if stalled st2 then st2
            else conclude E sub (outputDir_of E sub target) (stream_error ar) st2))"
proof (intro conjI impI)
  assume "flt Stat p = None \<and> node_at f p = Inr (FileNode c)"
  then show "target_guard flt f p = ExistsAsFile"
    by (simp add: guard_file)
next
  assume "flt Stat p = None \<and> flt Readdir p = None \<and> node_at f p = Inr DirNode \<and>
          children f p \<noteq> []"
  then show "target_guard flt f p = NotEmpty"
    by (simp add: guard_directory)
next
  assume "flt Stat p = None \<and> flt Readdir p = None \<and> node_at f p = Inr DirNode \<and>
          children f p = []"
  then show "target_guard flt f p = Proceed"
    by (simp add: guard_directory)
next
  assume "flt Stat p = None \<and> node_at f p = Inl err"
  then show "target_guard flt f p =
               (if code err = ''ENOENT'' then Proceed else ProbeError (message err))"
    by (simp add: guard_unresolved)
next
  assume "flt Stat p = Some err"
  then show "target_guard flt f p =
               (if code err = ''ENOENT'' then Proceed else ProbeError (message err))"
    by (rule guard_stat_fails)
next
  assume "flt Stat p = None \<and> node_at f p = Inr DirNode \<and> flt Readdir p = Some err"
  then show "target_guard flt f p =
               (if code err = ''ENOENT'' then Proceed else ProbeError (message err))"
    by (simp add: guard_readdir_fails)
next
  assume a: "ancestor_chain p = ds @ [d] \<and> (\<forall>y\<in>set ds. fs_lookup f y = Some DirNode) \<and>
             fs_lookup f d = Some n"
  then have "ancestor_chain p = ds @ [d]" and "\<forall>y\<in>set ds. fs_lookup f y = Some DirNode"
    by simp_all
  from node_at_last [OF this] a show "node_at f p = Inr n"
    by simp
next
  assume a: "flt Stat p = None \<and> ancestor_chain p = ds @ x # rest \<and>
             (\<forall>y\<in>set ds. fs_lookup f y = Some DirNode) \<and> fs_lookup f x = None"
  then have "ancestor_chain p = ds @ x # rest" and "\<forall>y\<in>set ds. fs_lookup f y = Some DirNode"
    and "fs_lookup f x = None" and s: "flt Stat p = None"
    by simp_all
  from node_at_missing [OF this(1-3)] have "node_at f p = Inl (enoent p)" .
  with s show "target_guard flt f p = Proceed"
    by (simp add: guard_unresolved enoent_def)
next
  assume a: "flt Stat p = None \<and> ancestor_chain p = ds @ x # rest \<and> rest \<noteq> [] \<and>
             (\<forall>y\<in>set ds. fs_lookup f y = Some DirNode) \<and> fs_lookup f x = Some (FileNode c)"
  then have "ancestor_chain p = ds @ x # rest" and "\<forall>y\<in>set ds. fs_lookup f y = Some DirNode"
    and "fs_lookup f x = Some (FileNode c)" and "rest \<noteq> []" and s: "flt Stat p = None"
    by simp_all
  from node_at_file_on_way [OF this(1-4)] have "node_at f p = Inl (enotdir p)" .
  with s show "target_guard flt f p = ProbeError (''ENOTDIR: not a directory, '' @ p)"
    by (simp add: guard_unresolved enotdir_def)
next
  assume "reaches_guard E repoUrl ref finalBranch ar \<and> p = outputDir_of E sub target"
  then have g: "reaches_guard E repoUrl ref finalBranch ar"
    and p: "p = outputDir_of E sub target" by simp_all
  show "downloadFolder E repoUrl sub target st0 =
        (case target_guard (fault E) (files st0) p of
           Proceed \<Rightarrow>
             extract_phase E sub p (prefix_of ref finalBranch) ar
               (st0\<lparr>spinner := spinner st0 @
                      [Start ''Preparing download...'', fetching_text ref]\<rparr>)
         | ExistsAsFile \<Rightarrow>
             st0\<lparr>spinner := spinner st0 @
                   [Start ''Preparing download...'', fetching_text ref,
                    Fail (''Target '' @ p @
                          '' exists as a file. Please remove it or choose another name.'')],
                 exitCode := 1\<rparr>
         | NotEmpty \<Rightarrow>
             st0\<lparr>spinner := spinner st0 @
                   [Start ''Preparing download...'', fetching_text ref,
                    Fail (''Directory '' @ p @ '' already exists and is not empty.'')],
                 exitCode := 1\<rparr>
         | ProbeError msg \<Rightarrow>
             st0\<lparr>spinner := spinner st0 @
                   [Start ''Preparing download...'', fetching_text ref,
                    Fail (''Error checking target path: '' @ msg)],
                 exitCode := 1\<rparr>)"
    unfolding p by (simp add: downloadFolder_at_guard [OF g] split: guard_outcome.splits)
next
  assume "extraction_starts E repoUrl sub target st0 ref finalBranch ar f2 \<and> is_absolute (cwd E)"
  then show "node_at f2 (outputDir_of E sub target) = Inr DirNode"
    using extraction_starts_node by blast
next
  assume "extraction_starts E repoUrl sub target st0 ref finalBranch ar f2 \<and> is_absolute (cwd E)"
  then show "fs_lookup f2 (outputDir_of E sub target) = Some DirNode"
    using extraction_starts_directory by blast
next
  assume "extraction_starts E repoUrl sub target st0 ref finalBranch ar f2 \<and> is_absolute (cwd E)"
  then have s: "extraction_starts E repoUrl sub target st0 ref finalBranch ar f2"
    by simp
  show "downloadFolder E repoUrl sub target st0 =
        (let st2 = extract_all (fault E) (streamBuffer E) (outputDir_of E sub target)
                     (prefix_of ref finalBranch) (strip_trailing_slash sub) (entries ar)
                     (st0\<lparr>spinner := spinner st0 @
                            [Start ''Preparing download...'', fetching_text ref],
                         files := f2, filesExtracted := 0, matchedSomething := False,
                         stalled := False\<rparr>)
         in if stalled st2 then st2
            else conclude E sub (outputDir_of E sub target) (stream_error ar) st2)"
    unfolding downloadFolder_extracts [OF s] by (simp add: loop_start_def)
qed

text \<open>
  The outcomes on concrete file systems, for the path \<open>/work/output\<close>: a file there, a
  directory holding \<open>old.txt\<close>, an empty directory, nothing at all, a \<open>stat\<close> that is
  denied and a \<open>readdir\<close> that is denied; and for the path \<open>/work/f/out\<close> where
  \<open>/work/f\<close> is a regular file. Two runs that the check stops, and the file system on
  which the loop of a run that proceeds starts.
\<close>

theorem target_guard_outcomes_witness:
  "target_guard no_faults [(''/work/output'', FileNode ''x''), (''/work'', DirNode)]
      ''/work/output'' = ExistsAsFile \<and>
   target_guard no_faults (files occupied_state) ''/work/output'' = NotEmpty \<and>
   target_guard no_faults [(''/work/output'', DirNode), (''/work'', DirNode)]
      ''/work/output'' = Proceed \<and>
   target_guard no_faults (files ex_state) ''/work/output'' = Proceed \<and>
   target_guard no_faults [(''/work/f'', FileNode ''x''), (''/work'', DirNode)]
      ''/work/f/out'' = ProbeError ''ENOTDIR: not a directory, /work/f/out'' \<and>
   target_guard (\<lambda>call q. if call = Stat then Some denied else None) (files ex_state)
      ''/work/output'' = ProbeError ''EACCES: permission denied'' \<and>
   target_guard (\<lambda>call q. if call = Readdir then Some denied else None)
      [(''/work/output'', DirNode), (''/work'', DirNode)] ''/work/output''
      = ProbeError ''EACCES: permission denied'' \<and>
   downloadFolder (env_for no_faults ex_archive) ''owner/repo#branch'' ''keep'' (Some ''output'')
      occupied_state =
     \<lparr>files = [(''/work/output/old.txt'', FileNode ''old''), (''/work/output'', DirNode),
               (''/work'', DirNode), (''/tmp'', DirNode)],
      spinner = [Start ''Preparing download...'', Text ''Fetching ZIP from branch'',
                 Fail ''Directory /work/output already exists and is not empty.''],
      exitCode = 1, filesExtracted = 0, matchedSomething = False, stalled = False\<rparr> \<and>
   downloadFolder (env_for no_faults ex_archive) ''owner/repo#branch'' ''keep'' (Some ''f/out'')
      (ex_state\<lparr>files := [(''/work/f'', FileNode ''x''), (''/work'', DirNode), (''/tmp'', DirNode)]\<rparr>) =
     \<lparr>files = [(''/work/f'', FileNode ''x''), (''/work'', DirNode), (''/tmp'', DirNode)],
      spinner = [Start ''Preparing download...'', Text ''Fetching ZIP from branch'',
                 Fail ''Error checking target path: ENOTDIR: not a directory, /work/f/out''],
      exitCode = 1, filesExtracted = 0, matchedSomething = False, stalled = False\<rparr> \<and>
   node_at ex_loop_files ''/work/output'' = Inr DirNode"
proof -
  let ?p = "''/work/output''"
  let ?q = "''/work/f/out''"
  let ?E = "env_for no_faults ex_archive"
  let ?f1 = "[(?p, FileNode ''x''), (''/work'', DirNode)]"
  let ?f3 = "[(?p, DirNode), (''/work'', DirNode)]"
  let ?f5 = "[(''/work/f'', FileNode ''x''), (''/work'', DirNode)]"
  let ?st5 = "ex_state\<lparr>files := [(''/work/f'', FileNode ''x''), (''/work'', DirNode), (''/tmp'', DirNode)]\<rparr>"
  let ?deny = "\<lambda>call q. if call = Stat then Some denied else None"
  let ?deny2 = "\<lambda>call q. if call = Readdir then Some denied else None"
  have chain: "ancestor_chain ?p = [''/work''] @ [?p]" by code_simp
  have chain': "ancestor_chain ?p = [''/work''] @ ?p # []" by code_simp
  have chainq: "ancestor_chain ?q = [''/work''] @ ''/work/f'' # [?q]" by code_simp
  have w1: "\<forall>y\<in>set [''/work'']. fs_lookup ?f1 y = Some DirNode" by code_simp
  have l1: "fs_lookup ?f1 ?p = Some (FileNode ''x'')" by code_simp
  have n1: "node_at ?f1 ?p = Inr (FileNode ''x'')"
    using target_guard_outcomes [of _ ?p ?f1 _ _ "[''/work'']" ?p "FileNode ''x''"] chain w1 l1
    by simp
  have n2: "node_at (files occupied_state) ?p = Inr DirNode" by code_simp
  have c2: "children (files occupied_state) ?p \<noteq> []" by code_simp
  have n3: "node_at ?f3 ?p = Inr DirNode" by code_simp
  have c3: "children ?f3 ?p = []" by code_simp
  have w4: "\<forall>y\<in>set [''/work'']. fs_lookup (files ex_state) y = Some DirNode" by code_simp
  have l4: "fs_lookup (files ex_state) ?p = None" by code_simp
  have w5: "\<forall>y\<in>set [''/work'']. fs_lookup ?f5 y = Some DirNode" by code_simp
  have l5: "fs_lookup ?f5 ''/work/f'' = Some (FileNode ''x'')" by code_simp
  have o: "outputDir_of ?E ''keep'' (Some ''output'') = ?p"
    by code_simp
  have oq: "outputDir_of ?E ''keep'' (Some ''f/out'') = ?q"
    by code_simp
  have t: "fetching_text ex_ref = Text ''Fetching ZIP from branch''"
    by code_simp
  have a: "target_guard no_faults ?f1 ?p = ExistsAsFile"
    using target_guard_outcomes [of no_faults ?p ?f1 "''x''"] n1 by simp
  have b: "target_guard no_faults (files occupied_state) ?p = NotEmpty"
    using target_guard_outcomes [of no_faults ?p "files occupied_state"] n2 c2 by simp
  have c: "target_guard no_faults ?f3 ?p = Proceed"
    using target_guard_outcomes [of no_faults ?p ?f3] n3 c3 by simp
  have d: "target_guard no_faults (files ex_state) ?p = Proceed"
    using target_guard_outcomes [of no_faults ?p "files ex_state" _ _ "[''/work'']" _ _ ?p "[]"]
      chain' w4 l4 by simp
  have d5: "target_guard no_faults ?f5 ?q = ProbeError ''ENOTDIR: not a directory, /work/f/out''"
    using target_guard_outcomes [of no_faults ?q ?f5 "''x''" _ "[''/work'']" _ _ "''/work/f''" "[?q]"]
      chainq w5 l5 by simp
  have e: "target_guard ?deny (files ex_state) ?p = ProbeError ''EACCES: permission denied''"
    using target_guard_outcomes [of ?deny ?p "files ex_state" _ denied] by (simp add: denied_def)
  have e2: "target_guard ?deny2 ?f3 ?p = ProbeError ''EACCES: permission denied''"
    using target_guard_outcomes [of ?deny2 ?p ?f3 _ denied] n3 by (simp add: denied_def)
  have r: "downloadFolder ?E ''owner/repo#branch'' ''keep'' (Some ''output'') occupied_state =
             occupied_state\<lparr>spinner := spinner occupied_state @
                [Start ''Preparing download...'', fetching_text ex_ref,
                 Fail ''Directory /work/output already exists and is not empty.''],
                exitCode := 1\<rparr>"
    using target_guard_outcomes [of _ ?p _ _ _ _ _ _ _ _ ?E
        "''owner/repo#branch''" ex_ref "Some ''branch''" ex_archive "''keep''" "Some ''output''"
        occupied_state]
      ex_reaches_guard [of no_faults ex_archive] o b
    by simp
  have g5: "target_guard no_faults (files ?st5) ?q =
              ProbeError ''ENOTDIR: not a directory, /work/f/out''"
    by code_simp
  have r5: "downloadFolder ?E ''owner/repo#branch'' ''keep'' (Some ''f/out'') ?st5 =
             ?st5\<lparr>spinner := spinner ?st5 @
                [Start ''Preparing download...'', fetching_text ex_ref,
                 Fail ''Error checking target path: ENOTDIR: not a directory, /work/f/out''],
                exitCode := 1\<rparr>"
    using target_guard_outcomes [of _ ?q _ _ _ _ _ _ _ _ ?E
        "''owner/repo#branch''" ex_ref "Some ''branch''" ex_archive "''keep''" "Some ''f/out''"
        ?st5]
      ex_reaches_guard [of no_faults ex_archive] oq g5
    by simp
  have ab: "is_absolute (cwd ?E)" by code_simp
  have x: "node_at ex_loop_files ?p = Inr DirNode"
    using target_guard_outcomes [of _ _ _ _ _ _ _ _ _ _ ?E
        "''owner/repo#branch''" ex_ref "Some ''branch''" ex_archive "''keep''" "Some ''output''"
        ex_state ex_loop_files]
      ex_extraction_starts [of ex_archive "''keep''"] ab o
    by simp
  from r have r': "downloadFolder ?E ''owner/repo#branch'' ''keep'' (Some ''output'') occupied_state =
     \<lparr>files = [(''/work/output/old.txt'', FileNode ''old''), (''/work/output'', DirNode),
               (''/work'', DirNode), (''/tmp'', DirNode)],
      spinner = [Start ''Preparing download...'', Text ''Fetching ZIP from branch'',
                 Fail ''Directory /work/output already exists and is not empty.''],
      exitCode = 1, filesExtracted = 0, matchedSomething = False, stalled = False\<rparr>"
    by (simp add: t occupied_state_def ex_state_def)
  from r5 have r5': "downloadFolder ?E ''owner/repo#branch'' ''keep'' (Some ''f/out'') ?st5 =
     \<lparr>files = [(''/work/f'', FileNode ''x''), (''/work'', DirNode), (''/tmp'', DirNode)],
      spinner = [Start ''Preparing download...'', Text ''Fetching ZIP from branch'',
                 Fail ''Error checking target path: ENOTDIR: not a directory, /work/f/out''],
      exitCode = 1, filesExtracted = 0, matchedSomething = False, stalled = False\<rparr>"
    by (simp add: t ex_state_def)
  from a b c d d5 e e2 r' r5' x show ?thesis by simp
qed

section \<open>A target directory that is not empty\<close>

text \<open>
  Claim C6, as stated: given an output directory that already holds an entry, the run
  fails before any write of the extraction and none of the directory's contents are
  deleted or modified. This fails when the output directory lies at the path that the run
  takes for its temporary directory: that name is assigned before the archive is
  requested, and when the request fails the handler of the error removes that path with
  everything below it. The output directory \<open>/tmp/gh-folder-1700\<close> holds \<open>old.txt\<close>;
  the run is given that directory as its target, its archive request fails, and at the
  end neither \<open>old.txt\<close> nor the directory is there.
\<close>

theorem temp_target_counterexample:
  "outputDir_of (env_for no_faults ex_archive) ''keep'' (Some ''/tmp/gh-folder-1700'') =
     ''/tmp/gh-folder-1700'' \<and>
   node_at (files temp_occupied_state) ''/tmp/gh-folder-1700'' = Inr DirNode \<and>
   children (files temp_occupied_state) ''/tmp/gh-folder-1700'' = [''old.txt''] \<and>
   downloadFolder (env_for no_faults ex_archive) ''owner/other#branch'' ''keep''
       (Some ''/tmp/gh-folder-1700'') temp_occupied_state =
     \<lparr>files = [(''/work'', DirNode), (''/tmp'', DirNode)],
      spinner = [Start ''Preparing download...'', Text ''Fetching ZIP from branch'',
                 Fail ''request failed''],
      exitCode = 1, filesExtracted = 0, matchedSomething = False, stalled = False\<rparr>"
  by code_simp

text \<open>
  Claim C6, amended. When the output path is a directory that already holds an entry, the
  run fails before any write of the extraction is issued: every such run ends with exit
  code 1 and an unchanged file counter. A run that arrives at the check of the target
  path (the reference parsed, the branch resolved, the archive request answered) changes
  nothing but the spinner and the exit code, so its file system is the initial one. A run
  that fails earlier leaves the file system alone too, except that the failed archive
  request removes the run's own temporary directory: every path that is not the
  temporary directory or below it keeps its node. So the contents of the output directory
  are neither deleted nor modified unless they lie at or below the path of the temporary
  directory.
\<close>

theorem nonempty_target_untouched:
  assumes "fault E Stat (outputDir_of E sub target) = None"
    and "fault E Readdir (outputDir_of E sub target) = None"
    and "node_at (files st0) (outputDir_of E sub target) = Inr DirNode"
    and "children (files st0) (outputDir_of E sub target) \<noteq> []"
  shows "exitCode (downloadFolder E repoUrl sub target st0) = 1 \<and>
         filesExtracted (downloadFolder E repoUrl sub target st0) = filesExtracted st0 \<and>
         (files (downloadFolder E repoUrl sub target st0) = files st0 \<or>
          files (downloadFolder E repoUrl sub target st0) =
            fs_remove (fault E) (tempDir_of E) (files st0)) \<and>
         (\<forall>q. \<not> below (tempDir_of E) q \<longrightarrow>
            map_of (files (downloadFolder E repoUrl sub target st0)) q = map_of (files st0) q) \<and>
         (\<forall>ref finalBranch ar. reaches_guard E repoUrl ref finalBranch ar \<longrightarrow>
            downloadFolder E repoUrl sub target st0 =
              st0\<lparr>spinner := spinner st0 @
                     [Start ''Preparing download...'', fetching_text ref,
                      Fail (''Directory '' @ outputDir_of E sub target @
                            '' already exists and is not empty.'')],
                  exitCode := 1\<rparr>)"
proof -
  have g: "target_guard (fault E) (files st0) (outputDir_of E sub target) = NotEmpty"
    using assms by (simp add: guard_directory)
  have a: "exitCode (downloadFolder E repoUrl sub target st0) = 1 \<and>
         filesExtracted (downloadFolder E repoUrl sub target st0) = filesExtracted st0 \<and>
         (files (downloadFolder E repoUrl sub target st0) = files st0 \<or>
          files (downloadFolder E repoUrl sub target st0) =
            fs_remove (fault E) (tempDir_of E) (files st0))"
    by (simp add: downloadFolder_def Let_def on_error_def g split: sum.splits option.splits)
  then have c: "map_of (files (downloadFolder E repoUrl sub target st0)) q = map_of (files st0) q"
    if "\<not> below (tempDir_of E) q" for q
    using fs_remove_elsewhere [OF that] by auto
  have b: "downloadFolder E repoUrl sub target st0 =
              st0\<lparr>spinner := spinner st0 @
                     [Start ''Preparing download...'', fetching_text ref,
                      Fail (''Directory '' @ outputDir_of E sub target @
                            '' already exists and is not empty.'')],
                  exitCode := 1\<rparr>"
    if "reaches_guard E repoUrl ref finalBranch ar" for ref finalBranch ar
    by (simp add: downloadFolder_at_guard [OF that] g)
  from a b c show ?thesis by blast
qed

text \<open>
  The directory \<open>/work/output\<close> holds \<open>old.txt\<close>. The run for subfolder \<open>keep\<close> of the
  example archive ends with the message and exit code 1, and with the same files. The
  run whose archive request fails ends with exit code 1 and keeps \<open>old.txt\<close> too: the
  file is not below the temporary directory \<open>/tmp/gh-folder-1700\<close>.
\<close>

theorem nonempty_target_untouched_witness:
  "children (files occupied_state) ''/work/output'' = [''old.txt''] \<and>
   downloadFolder (env_for no_faults ex_archive) ''owner/repo#branch'' ''keep'' (Some ''output'')
       occupied_state =
     occupied_state\<lparr>spinner := [Start ''Preparing download...'', Text ''Fetching ZIP from branch'',
                       Fail ''Directory /work/output already exists and is not empty.''],
                    exitCode := 1\<rparr> \<and>
   exitCode (downloadFolder (env_for no_faults ex_archive) ''owner/other#branch'' ''keep''
       (Some ''output'') occupied_state) = 1 \<and>
   map_of (files (downloadFolder (env_for no_faults ex_archive) ''owner/other#branch'' ''keep''
       (Some ''output'') occupied_state)) ''/work/output/old.txt'' = Some (FileNode ''old'')"
proof -
  let ?E = "env_for no_faults ex_archive"
  have o: "outputDir_of ?E ''keep'' (Some ''output'') = ''/work/output''"
    by code_simp
  have c: "children (files occupied_state) ''/work/output'' = [''old.txt'']"
    by code_simp
  have l: "node_at (files occupied_state) ''/work/output'' = Inr DirNode"
    by code_simp
  have t: "fetching_text ex_ref = Text ''Fetching ZIP from branch''"
    by code_simp
  have s: "spinner occupied_state = []"
    by (simp add: occupied_state_def ex_state_def)
  have nb: "\<not> below (tempDir_of ?E) ''/work/output/old.txt''"
    by code_simp
  have m: "map_of (files occupied_state) ''/work/output/old.txt'' = Some (FileNode ''old'')"
    by code_simp
  have h1: "fault ?E Stat (outputDir_of ?E ''keep'' (Some ''output'')) = None"
    and h2: "fault ?E Readdir (outputDir_of ?E ''keep'' (Some ''output'')) = None"
    by simp_all
  have h3: "node_at (files occupied_state) (outputDir_of ?E ''keep'' (Some ''output'')) = Inr DirNode"
    and h4: "children (files occupied_state) (outputDir_of ?E ''keep'' (Some ''output'')) \<noteq> []"
    by (simp_all add: o l c)
  from nonempty_target_untouched [OF h1 h2 h3 h4, of "''owner/repo#branch''"] ex_reaches_guard
  have "downloadFolder ?E ''owner/repo#branch'' ''keep'' (Some ''output'') occupied_state =
          occupied_state\<lparr>spinner := spinner occupied_state @
                     [Start ''Preparing download...'', fetching_text ex_ref,
                      Fail (''Directory '' @ outputDir_of ?E ''keep'' (Some ''output'') @
                            '' already exists and is not empty.'')],
                  exitCode := 1\<rparr>"
    by blast
  then have r: "downloadFolder ?E ''owner/repo#branch'' ''keep'' (Some ''output'') occupied_state =
     occupied_state\<lparr>spinner := [Start ''Preparing download...'', Text ''Fetching ZIP from branch'',
                       Fail ''Directory /work/output already exists and is not empty.''],
                    exitCode := 1\<rparr>"
    by (simp add: o t s)
  from nonempty_target_untouched [OF h1 h2 h3 h4, of "''owner/other#branch''"]
  have x: "exitCode (downloadFolder ?E ''owner/other#branch'' ''keep'' (Some ''output'')
                occupied_state) = 1"
    and "\<forall>q. \<not> below (tempDir_of ?E) q \<longrightarrow>
           map_of (files (downloadFolder ?E ''owner/other#branch'' ''keep'' (Some ''output'')
                occupied_state)) q = map_of (files occupied_state) q"
    by blast+
  with nb m have k: "map_of (files (downloadFolder ?E ''owner/other#branch'' ''keep''
       (Some ''output'') occupied_state)) ''/work/output/old.txt'' = Some (FileNode ''old'')"
    by simp
  from c r x k show ?thesis by simp
qed

section \<open>The order of the patterns\<close>



section \<open>The suffix .git and the fragment\<close>




section \<open>Only directories matched\<close>

text \<open>
  Claim C9. When at least one entry is in scope and every in-scope entry is a directory,
  the run still ends as a success: the exit code is left as it was, \<open>matchedSomething\<close>
  is set, no file is counted, and the spinner reports success with \<open>(0 files)\<close>.
  Whether the directories could be created plays no part, and the stream never stalls
  on a directory, so the run does return.
\<close>

theorem directories_alone_succeed:
  assumes "extraction_starts E repoUrl sub target st0 ref finalBranch ar f2"
    and "stream_error ar = None"
    and "\<exists>e\<in>set (entries ar). in_scope (prefix_of ref finalBranch) (strip_trailing_slash sub) e"
    and "\<forall>e\<in>set (entries ar).
           in_scope (prefix_of ref finalBranch) (strip_trailing_slash sub) e \<longrightarrow> type e = Directory"
  shows "exitCode (downloadFolder E repoUrl sub target st0) = exitCode st0 \<and>
         matchedSomething (downloadFolder E repoUrl sub target st0) \<and>
         filesExtracted (downloadFolder E repoUrl sub target st0) = 0 \<and>
         last (spinner (downloadFolder E repoUrl sub target st0)) =
           Succeed (''Successfully downloaded '' @ sub @ '' to '' @ outputDir_of E sub target @
                    '' (0 files)'') \<and>
         \<not> stalled (downloadFolder E repoUrl sub target st0)"
proof -
  let ?st = "extract_all (fault E) (streamBuffer E) (outputDir_of E sub target)
               (prefix_of ref finalBranch) (strip_trailing_slash sub) (entries ar)
               (loop_start ref st0 f2)"
  have s: "\<not> stalled ?st"
    by (simp add: dirs_only_stalled [OF assms(4)] loop_start_def)
  have m: "matchedSomething ?st"
    using assms(3) by (simp add: dirs_only_matched [OF assms(4)] loop_start_def)
  have c: "filesExtracted ?st = 0"
    by (simp add: dirs_only_count [OF assms(4)] loop_start_def)
  have x: "exitCode ?st = exitCode st0"
    by (simp add: exitCode_extract_all loop_start_def)
  have z: "show_nat 0 = ''0''"
    by code_simp
  show ?thesis
    by (simp add: downloadFolder_extracts [OF assms(1)] Let_def assms(2) conclude_def s m c x z
          succeeded_def)
qed

text \<open>An archive with \<open>keep/\<close> and \<open>keep/sub/\<close> as its only entries in scope.\<close>

theorem directories_alone_succeed_witness:
  "(let run = downloadFolder (env_for no_faults dirs_archive) ''owner/repo#branch'' ''keep''
                (Some ''output'') ex_state
    in exitCode run = 0 \<and> matchedSomething run \<and> filesExtracted run = 0 \<and>
       last (spinner run) = Succeed ''Successfully downloaded keep to /work/output (0 files)'' \<and>
       \<not> stalled run)"
proof -
  let ?E = "env_for no_faults dirs_archive"
  have s: "stream_error dirs_archive = None"
    by (simp add: dirs_archive_def)
  have y: "\<exists>e\<in>set (entries dirs_archive).
             in_scope (prefix_of ex_ref (Some ''branch'')) (strip_trailing_slash ''keep'') e"
    by code_simp
  have d: "\<forall>e\<in>set (entries dirs_archive).
             in_scope (prefix_of ex_ref (Some ''branch'')) (strip_trailing_slash ''keep'') e
             \<longrightarrow> type e = Directory"
    by code_simp
  have o: "outputDir_of ?E ''keep'' (Some ''output'') = ''/work/output''"
    by code_simp
  show ?thesis
    using directories_alone_succeed [OF ex_extraction_starts s y d]
    by (simp add: o ex_state_def Let_def)
qed

section \<open>The generic pattern is not anchored\<close>

text \<open>
  Claim C10, as stated, fails on the code for some of the characters that may precede
  \<open>github.com\<close>: when they make the shorthand pattern match, or contain an earlier
  \<open>github.com/\<close>, the input still parses, but owner and repo are not the ones that
  follow the last \<open>github.com/\<close>.
\<close>

theorem unanchored_counterexample:
  "parseGitHubUrl ''a/b#github.com/o/r'' =
     Inr \<lparr>owner = Some ''a'', repo = Some ''b'', branch = Some ''github.com/o/r'',
          subfolder = None\<rparr> \<and>
   parseGitHubUrl ''https://github.com/github.com/o/r'' =
     Inr \<lparr>owner = Some ''github.com'', repo = Some ''o/r'', branch = None, subfolder = None\<rparr>"
  by code_simp

text \<open>
  Claim C10, amended. The generic pattern is not anchored to the start of the input:
  every string that ends with \<open>github.com/<owner>/<repo>\<close>, optionally followed by
  \<open>.git\<close> and by \<open>#branch\<close>, parses successfully whatever precedes \<open>github.com\<close>,
  so the parser accepts more than the URL and shorthand forms. It returns that owner,
  repo and branch when neither the tree-URL nor the shorthand pattern matches the input
  and this \<open>github.com/\<close> is the first one in the input. Owner, repo and branch are
  non-empty and without line terminators, the owner without a slash, the repo without
  \<open>#\<close> and, unless \<open>.git\<close> follows it, not itself ending in \<open>.git\<close>.
\<close>

theorem unanchored_generic:
  assumes "plain ow" and "CHR ''/'' \<notin> set ow" and "plain rp" and "CHR ''#'' \<notin> set rp"
    and "\<not> git \<longrightarrow> \<not> git_stem rp" and "\<forall>b. br = Some b \<longrightarrow> plain b"
  shows "(\<exists>ref. parseGitHubUrl (pre @ ''github.com/'' @ ow @ ''/'' @ rp @ repo_suffix git br) = Inr ref) \<and>
         (groups (pre @ ''github.com/'' @ ow @ ''/'' @ rp @ repo_suffix git br) treeUrlRegex = None \<and>
          groups (pre @ ''github.com/'' @ ow @ ''/'' @ rp @ repo_suffix git br) shorthandRegex = None \<and>
          find_sub ''github.com/'' (pre @ ''github.com/'' @ ow @ ''/'' @ rp @ repo_suffix git br)
            = Some (length pre) \<longrightarrow>
          parseGitHubUrl (pre @ ''github.com/'' @ ow @ ''/'' @ rp @ repo_suffix git br) =
            Inr \<lparr>owner = Some ow, repo = Some rp, branch = br, subfolder = None\<rparr>)"
proof (intro conjI impI)
  show "\<exists>ref. parseGitHubUrl (pre @ ''github.com/'' @ ow @ ''/'' @ rp @ repo_suffix git br) = Inr ref"
    by (rule parse_accepts) (rule generic_accepts [OF assms])
next
  let ?input = "pre @ ''github.com/'' @ ow @ ''/'' @ rp @ repo_suffix git br"
  assume a: "groups ?input treeUrlRegex = None \<and> groups ?input shorthandRegex = None \<and>
          find_sub ''github.com/'' ?input = Some (length pre)"
  from a have g: "groups ?input treeUrlRegex = None" "groups ?input shorthandRegex = None"
    and f: "find_sub ''github.com/'' ?input = Some (length pre)"
    by blast+
  from g have e: "js_match ?input treeUrlRegex = None" "js_match ?input shorthandRegex = None"
    by (simp_all only: groups_None)
  show "parseGitHubUrl ?input = Inr \<lparr>owner = Some ow, repo = Some rp, branch = br, subfolder = None\<rparr>"
    by (rule generic_parse [OF assms refl e f])
qed

text \<open>
  \<open>see github.com/o/r\<close> is neither a URL nor a shorthand and parses to owner \<open>o\<close>
  and repo \<open>r\<close>; \<open>a/b#github.com/o/r\<close> parses as well.
\<close>

theorem unanchored_generic_witness:
  "parseGitHubUrl ''see github.com/o/r'' =
     Inr \<lparr>owner = Some ''o'', repo = Some ''r'', branch = None, subfolder = None\<rparr> \<and>
   groups ''see github.com/o/r'' treeUrlRegex = None \<and>
   groups ''see github.com/o/r'' shorthandRegex = None \<and>
   (\<exists>ref. parseGitHubUrl ''a/b#github.com/o/r'' = Inr ref)"
proof -
  have po: "plain ''o''" and pr: "plain ''r''" by code_simp+
  have so: "CHR ''/'' \<notin> set ''o''" and hr: "CHR ''#'' \<notin> set ''r''" by simp_all
  have gs: "\<not> False \<longrightarrow> \<not> git_stem ''r''" by code_simp
  have br: "\<forall>b. (None :: string option) = Some b \<longrightarrow> plain b" by simp
  have i: "''see '' @ ''github.com/'' @ ''o'' @ ''/'' @ ''r'' @ repo_suffix False None = ''see github.com/o/r''"
    and j: "''a/b#'' @ ''github.com/'' @ ''o'' @ ''/'' @ ''r'' @ repo_suffix False None = ''a/b#github.com/o/r''"
    by (simp_all add: repo_suffix_def)
  have t: "groups ''see github.com/o/r'' treeUrlRegex = None"
    and s: "groups ''see github.com/o/r'' shorthandRegex = None"
    and f: "find_sub ''github.com/'' ''see github.com/o/r'' = Some (length ''see '')"
    by code_simp+
  note w = unanchored_generic [OF po so pr hr gs br]
  have 1: "parseGitHubUrl ''see github.com/o/r'' =
     Inr \<lparr>owner = Some ''o'', repo = Some ''r'', branch = None, subfolder = None\<rparr>"
    using w [of "''see ''"] t s f unfolding i by blast
  have 2: "\<exists>ref. parseGitHubUrl ''a/b#github.com/o/r'' = Inr ref"
    using w [of "''a/b#''"] unfolding j by blast
  from 1 2 t s show ?thesis by blast
qed

end
